theory Spec2Isabelle
  imports Main
begin

section \<open>Python values and the operations the monitor applies to them\<close>

text \<open>
  The monitor works on the values that \<^verbatim>\<open>json.loads\<close> produces. They are dynamically
  typed, so they are one datatype here. Number literals with a fraction or an exponent
  (Python floats coming from the appliance) are not part of the modelled input: the
  appliance reports counts, byte totals and rates as integers, and the one field it
  reports as text is covered by \<open>PStr\<close>. A dictionary is an association list looked up
  from the front.
\<close>

datatype pyval =
    PNone
  | PBool bool
  | PInt int
  | PStr string
  | PList "pyval list"
  | PDict "(string \<times> pyval) list"

datatype endpoint =
    Summary | SystemStorage | SnapshotStorage | AvgGrowth | IngestPerDay
  | Node | Streams | IoStats | Ingest

text \<open>
  The subclasses of \<^verbatim>\<open>Exception\<close> that the code can meet. \<open>RequestException\<close> stands
  for a failure of the HTTP library that is none of the three the login names.
\<close>

datatype exn =
    Timeout | ConnectionError | HTTPError | RequestException
  | JSONDecodeError | KeyError | TypeError | IndexError | ValueError
  | OverflowError | ZeroDivisionError | AttributeError
  | RubrikNotConnectedException endpoint

definition bind_e :: "exn + 'a \<Rightarrow> ('a \<Rightarrow> exn + 'b) \<Rightarrow> exn + 'b" where
  "bind_e r f = (case r of Inl e \<Rightarrow> Inl e | Inr x \<Rightarrow> f x)"

text \<open>\<^verbatim>\<open>v[k]\<close> with a string key.\<close>

fun getitem_key :: "pyval \<Rightarrow> string \<Rightarrow> exn + pyval" where
  "getitem_key (PDict kvs) k = (case map_of kvs k of None \<Rightarrow> Inl KeyError | Some v \<Rightarrow> Inr v)"
| "getitem_key _ k = Inl TypeError"

text \<open>
  \<^verbatim>\<open>v[i]\<close> with an integer index: a list or a string counts a negative index from the
  end and raises IndexError out of range; a dictionary decoded from JSON has string keys
  only, so an integer key is missing from it.
\<close>

definition py_index :: "'a list \<Rightarrow> int \<Rightarrow> exn + 'a" where
  "py_index xs i =
     (if 0 \<le> i \<and> i < int (length xs) then Inr (xs ! nat i)
      else if i < 0 \<and> - int (length xs) \<le> i then Inr (xs ! nat (int (length xs) + i))
      else Inl IndexError)"

fun getitem_idx :: "pyval \<Rightarrow> int \<Rightarrow> exn + pyval" where
  "getitem_idx (PList xs) i = py_index xs i"
| "getitem_idx (PStr s) i = bind_e (py_index s i) (\<lambda>c. Inr (PStr [c]))"
| "getitem_idx (PDict kvs) i = Inl KeyError"
| "getitem_idx _ i = Inl TypeError"

text \<open>
  \<^verbatim>\<open>a + b\<close>: integers (a bool counts as 0 or 1) add, strings and lists concatenate,
  anything else is a TypeError.
\<close>

fun py_add :: "pyval \<Rightarrow> pyval \<Rightarrow> exn + pyval" where
  "py_add (PInt a) (PInt b) = Inr (PInt (a + b))"
| "py_add (PInt a) (PBool b) = Inr (PInt (a + of_bool b))"
| "py_add (PBool a) (PInt b) = Inr (PInt (of_bool a + b))"
| "py_add (PBool a) (PBool b) = Inr (PInt (of_bool a + of_bool b))"
| "py_add (PStr a) (PStr b) = Inr (PStr (a @ b))"
| "py_add (PList a) (PList b) = Inr (PList (a @ b))"
| "py_add _ _ = Inl TypeError"

subsection \<open>\<^verbatim>\<open>int(s)\<close> on a string\<close>

text \<open>
  A \<open>string\<close> holds the code points of a Python \<^verbatim>\<open>str\<close>, one \<open>char\<close> each, so only code
  points below 256 are modelled. Of these, \<^verbatim>\<open>int()\<close> skips at both ends the six ASCII
  white space characters and the two non-ASCII ones, U+0085 and U+00A0; it does not skip
  the separators U+001C to U+001F.
\<close>

definition py_isspace :: "char \<Rightarrow> bool" where
  "py_isspace c = (c \<in> set [CHR '' '', CHR 0x09, CHR 0x0A, CHR 0x0B, CHR 0x0C, CHR 0x0D,
                              CHR 0x85, CHR 0xA0])"

definition py_isdigit :: "char \<Rightarrow> bool" where
  "py_isdigit c = (48 \<le> (of_char c :: nat) \<and> (of_char c :: nat) \<le> 57)"

definition strip :: "string \<Rightarrow> string" where
  "strip s = rev (dropWhile py_isspace (rev (dropWhile py_isspace s)))"

text \<open>
  Decimal digits; a single underscore may stand between two digits. Below 256 the only
  decimal digits are the ASCII ones. A text with more than \<open>int_max_str_digits\<close> digit
  characters is refused (the default limit of CPython from 3.11 on).
\<close>

definition int_max_str_digits :: nat where
  "int_max_str_digits = 4300"

fun digits_value :: "string \<Rightarrow> nat \<Rightarrow> nat option" where
  "digits_value [] acc = Some acc"
| "digits_value (c # cs) acc =
     (if py_isdigit c then digits_value cs (10 * acc + (of_char c - 48))
      else if c = CHR ''_'' \<and> cs \<noteq> [] \<and> py_isdigit (hd cs) then digits_value cs acc
      else None)"

definition unsigned_value :: "string \<Rightarrow> nat option" where
  "unsigned_value s =
     (if s \<noteq> [] \<and> py_isdigit (hd s) \<and> length (filter py_isdigit s) \<le> int_max_str_digits
      then digits_value s 0 else None)"

definition int_of_str :: "string \<Rightarrow> exn + int" where
  "int_of_str s =
     (case strip s of
        [] \<Rightarrow> Inl ValueError
      | c # cs \<Rightarrow>
          (if c = CHR ''-'' then
             (case unsigned_value cs of None \<Rightarrow> Inl ValueError | Some n \<Rightarrow> Inr (- int n))
           else if c = CHR ''+'' then
             (case unsigned_value cs of None \<Rightarrow> Inl ValueError | Some n \<Rightarrow> Inr (int n))
           else
             (case unsigned_value (c # cs) of None \<Rightarrow> Inl ValueError | Some n \<Rightarrow> Inr (int n))))"

text \<open>\<^verbatim>\<open>int(v)\<close> on a decoded value.\<close>

fun py_int :: "pyval \<Rightarrow> exn + int" where
  "py_int (PInt i) = Inr i"
| "py_int (PBool b) = Inr (of_bool b)"
| "py_int (PStr s) = int_of_str s"
| "py_int _ = Inl TypeError"

subsection \<open>True division of integers and \<^verbatim>\<open>int()\<close> of the quotient\<close>

text \<open>
  The file runs under Python 3 (it names \<^verbatim>\<open>FileNotFoundError\<close>), where \<^verbatim>\<open>a / b\<close> on
  integers is true division: the result is the binary64 number nearest to the exact
  quotient, ties to the even mantissa, and OverflowError beyond the largest double.
  A float is kept exactly, as mantissa times a power of two.
\<close>

datatype py_float = PyFloat (mantissa: int) (exponent: int)

fun bit_length :: "nat \<Rightarrow> nat" where
  "bit_length n = (if n = 0 then 0 else Suc (bit_length (n div 2)))"

declare bit_length.simps [simp del]

definition round_half_even :: "nat \<Rightarrow> nat \<Rightarrow> nat" where
  "round_half_even n d =
     (let q = n div d; r = n mod d
      in if 2 * r < d then q else if d < 2 * r then q + 1
         else if even q then q else q + 1)"

text \<open>The \<open>e\<close> with \<open>2 ^ e \<le> a / b < 2 ^ (e + 1)\<close>, for positive \<open>a\<close> and \<open>b\<close>.\<close>

definition floor_log2_quot :: "nat \<Rightarrow> nat \<Rightarrow> int" where
  "floor_log2_quot a b =
     (let d = int (bit_length a) - int (bit_length b)
      in if b * 2 ^ nat d \<le> a * 2 ^ nat (- d) then d else d - 1)"

text \<open>
  The nearest double to \<open>a / b\<close> as \<open>(m, s)\<close>, meaning \<open>m * 2 ^ s\<close>: 53 bits of mantissa,
  and no exponent below the subnormal one.
\<close>

definition nearest_double :: "nat \<Rightarrow> nat \<Rightarrow> nat \<times> int" where
  "nearest_double a b =
     (let s = max (floor_log2_quot a b - 52) (- 1074)
      in (round_half_even (a * 2 ^ nat (- s)) (b * 2 ^ nat s), s))"

definition int_truediv :: "int \<Rightarrow> int \<Rightarrow> exn + py_float" where
  "int_truediv a b =
     (if b = 0 then Inl ZeroDivisionError
      else if a = 0 then Inr (PyFloat 0 0)
      else (case nearest_double (nat \<bar>a\<bar>) (nat \<bar>b\<bar>) of
              (m, s) \<Rightarrow>
                if 0 \<le> s \<and> (2::nat) ^ 1024 \<le> m * 2 ^ nat s then Inl OverflowError
                else Inr (PyFloat (sgn a * sgn b * int m) s)))"

text \<open>\<^verbatim>\<open>v / c\<close> for a decoded value \<open>v\<close> and an integer constant \<open>c\<close>.\<close>

fun py_truediv :: "pyval \<Rightarrow> int \<Rightarrow> exn + py_float" where
  "py_truediv (PInt a) c = int_truediv a c"
| "py_truediv (PBool a) c = int_truediv (of_bool a) c"
| "py_truediv _ c = Inl TypeError"

text \<open>\<^verbatim>\<open>int(x)\<close> on a float cuts the fraction off, towards zero.\<close>

definition int_of_float :: "py_float \<Rightarrow> int" where
  "int_of_float x =
     (if 0 \<le> exponent x then mantissa x * 2 ^ nat (exponent x)
      else sgn (mantissa x) * (\<bar>mantissa x\<bar> div 2 ^ nat (- exponent x)))"

text \<open>The two divisors of the source, and \<^verbatim>\<open>int(v / c)\<close> as the source writes it.\<close>

definition GB :: int where
  "GB = 1000 * 1000 * 1000"

definition MB :: int where
  "MB = 1024 * 1024"

definition int_quot :: "pyval \<Rightarrow> int \<Rightarrow> exn + int" where
  "int_quot v c = bind_e (py_truediv v c) (\<lambda>x. Inr (int_of_float x))"


section \<open>The monitor's state\<close>

text \<open>
  Class \<^verbatim>\<open>RubrikData\<close>. Its fields hold whatever the last assignment stored, so they
  are \<open>pyval\<close>s. The field \<^verbatim>\<open>total\<close> is \<open>total_gb\<close> here, \<open>total\<close> being a constant
  of HOL.
\<close>

record RubrikData =
  iops :: "pyval list"
  throughput :: "pyval list"
  ingest :: "pyval list"
  streams :: "pyval list"
  success_count :: pyval
  failure_count :: pyval
  running_count :: pyval
  total_gb :: pyval
  used :: pyval
  available :: pyval
  avg_growth_per_day :: pyval
  ingested_yesterday :: pyval
  ingested_today :: pyval
  node_status :: pyval

definition RubrikData_init :: RubrikData where
  "RubrikData_init =
     \<lparr>iops = [], throughput = [], ingest = [], streams = [],
      success_count = PInt 0, failure_count = PInt 0, running_count = PInt 0,
      total_gb = PInt 0, used = PInt 0, available = PInt 0, avg_growth_per_day = PInt 0,
      ingested_yesterday = PInt 0, ingested_today = PInt 0, node_status = PStr ''ERR''\<rparr>"

definition MAX_DATAPOINTS :: nat where
  "MAX_DATAPOINTS = 30"

text \<open>
  What \<^verbatim>\<open>rubrik_monitor.json\<close> holds: the empty string of the constructor, the dump of
  the data under \<^verbatim>\<open>"stats"\<close>, or an \<^verbatim>\<open>"error"\<close> object with its message. The dump is
  kept as the data it was made from.
\<close>

datatype payload = Blank | Stats RubrikData | Error string

datatype session = Session

text \<open>Class \<^verbatim>\<open>MonitorJSON\<close>; an absent token is \<open>PNone\<close>, an absent session \<open>None\<close>.\<close>

record MonitorJSON =
  json :: payload
  session :: "session option"
  data :: RubrikData
  token :: pyval

definition MonitorJSON_init :: MonitorJSON where
  "MonitorJSON_init = \<lparr>json = Blank, session = None, data = RubrikData_init, token = PNone\<rparr>"

section \<open>The appliance\<close>

text \<open>
  A response carries its status code and what \<^verbatim>\<open>json.loads\<close> makes of its text:
  \<open>None\<close> when \<^verbatim>\<open>json.loads\<close> raises on it. That is the case of a text that is not JSON,
  and also of an integer literal of more than \<open>int_max_str_digits\<close> digits, where Python
  raises ValueError, the base class of JSONDecodeError; the model has JSONDecodeError
  for both, and no handler of the source tells them apart. A request either gets a
  response or raises inside
  the HTTP library. \<open>remote\<close> is what the appliance does during one cycle: its answer to
  the login and to each of the nine queries. The credentials, the headers and the token
  that go out with a request are not modelled: whatever they are, the answers are those
  of \<open>remote\<close>.
\<close>

record response =
  status_code :: int
  loads_text :: "pyval option"

datatype http_result = Responds response | Fails exn

record remote =
  login :: http_result
  answer :: "endpoint \<Rightarrow> http_result"

definition loads :: "response \<Rightarrow> exn + pyval" where
  "loads r = (case loads_text r of None \<Rightarrow> Inl JSONDecodeError | Some v \<Rightarrow> Inr v)"

section \<open>Statements: state and exceptions\<close>

text \<open>
  A piece of the program takes the monitor object and returns it, mutated, with either
  a value or the exception that stopped it. The state that comes with an exception is
  the one reached when it was raised: assignments made before it stay made.
\<close>

type_synonym 'a prog = "MonitorJSON \<Rightarrow> (exn + 'a) \<times> MonitorJSON"

definition ret :: "'a \<Rightarrow> 'a prog" where
  "ret x = (\<lambda>m. (Inr x, m))"

definition raise :: "exn \<Rightarrow> 'a prog" where
  "raise e = (\<lambda>m. (Inl e, m))"

definition lift :: "exn + 'a \<Rightarrow> 'a prog" where
  "lift r = (\<lambda>m. (r, m))"

definition bind_p :: "'a prog \<Rightarrow> ('a \<Rightarrow> 'b prog) \<Rightarrow> 'b prog" where
  "bind_p p f = (\<lambda>m. case p m of (Inl e, m') \<Rightarrow> (Inl e, m') | (Inr x, m') \<Rightarrow> f x m')"

definition seq :: "unit prog \<Rightarrow> 'a prog \<Rightarrow> 'a prog" where
  "seq p q = bind_p p (\<lambda>_. q)"

definition modify :: "(MonitorJSON \<Rightarrow> MonitorJSON) \<Rightarrow> unit prog" where
  "modify f = (\<lambda>m. (Inr (), f m))"

text \<open>
  An assignment to a field of \<^verbatim>\<open>rubrik_monitor.data\<close>: the right-hand side is evaluated
  on the data as they are, and the field is written only if that raised nothing.
\<close>

definition stmt :: "('v \<Rightarrow> RubrikData \<Rightarrow> RubrikData) \<Rightarrow> (RubrikData \<Rightarrow> exn + 'v) \<Rightarrow> unit prog" where
  "stmt upd rhs =
     (\<lambda>m. case rhs (data m) of
             Inl e \<Rightarrow> (Inl e, m)
           | Inr v \<Rightarrow> (Inr (), m\<lparr>data := upd v (data m)\<rparr>))"

definition assign :: "('v \<Rightarrow> RubrikData \<Rightarrow> RubrikData) \<Rightarrow> exn + 'v \<Rightarrow> unit prog" where
  "assign upd e = stmt upd (\<lambda>_. e)"

section \<open>\<^verbatim>\<open>get_rubrik_token\<close>\<close>

text \<open>
  The session is stored first. Of the exceptions of the POST only Timeout,
  ConnectionError and HTTPError are caught. \<^verbatim>\<open>json.loads\<close> and the subscript stand
  outside any \<^verbatim>\<open>try\<close> that would catch what they raise, except for the KeyError of a
  missing \<^verbatim>\<open>"token"\<close>, whose handler builds the log line from \<^verbatim>\<open>result["message"]\<close>.
\<close>

definition get_rubrik_token :: "remote \<Rightarrow> pyval prog" where
  "get_rubrik_token api =
     seq (modify (\<lambda>m. m\<lparr>session := Some Session\<rparr>))
       (case login api of
          Fails e \<Rightarrow>
            if e = Timeout \<or> e = ConnectionError \<or> e = HTTPError then ret PNone else raise e
        | Responds r \<Rightarrow>
            lift (bind_e (loads r) (\<lambda>result.
              case getitem_key result ''token'' of
                Inr tok \<Rightarrow> Inr tok
              | Inl e \<Rightarrow>
                  if e = KeyError then
                    bind_e (getitem_key result ''message'') (\<lambda>msg.
                    bind_e (py_add (PStr ''Not connected to Rubrik: '') msg) (\<lambda>_.
                    Inr PNone))
                  else Inl e)))"

section \<open>The nine queries\<close>

definition session_get :: "remote \<Rightarrow> endpoint \<Rightarrow> response prog" where
  "session_get api q =
     (\<lambda>m. case session m of
             None \<Rightarrow> (Inl AttributeError, m)
           | Some s \<Rightarrow>
               (case answer api q of Fails e \<Rightarrow> (Inl e, m) | Responds r \<Rightarrow> (Inr r, m)))"

text \<open>The request and the status check that follows each one.\<close>

definition fetch :: "remote \<Rightarrow> endpoint \<Rightarrow> response prog" where
  "fetch api q =
     bind_p (session_get api q) (\<lambda>r.
       if status_code r \<noteq> 200 then raise (RubrikNotConnectedException q) else ret r)"

definition q_summary :: "remote \<Rightarrow> unit prog" where
  "q_summary api =
     bind_p (fetch api Summary) (\<lambda>r.
     seq (assign (\<lambda>v d. d\<lparr>success_count := v\<rparr>)
            (bind_e (loads r) (\<lambda>j. getitem_key j ''successCount'')))
    (seq (assign (\<lambda>v d. d\<lparr>failure_count := v\<rparr>)
            (bind_e (loads r) (\<lambda>j. getitem_key j ''failureCount'')))
         (assign (\<lambda>v d. d\<lparr>running_count := v\<rparr>)
            (bind_e (loads r) (\<lambda>j. getitem_key j ''runningCount'')))))"

definition q_system_storage :: "remote \<Rightarrow> unit prog" where
  "q_system_storage api =
     bind_p (fetch api SystemStorage) (\<lambda>r.
     seq (assign (\<lambda>v d. d\<lparr>total_gb := PInt v\<rparr>)
            (bind_e (loads r) (\<lambda>j. bind_e (getitem_key j ''total'') (\<lambda>v. int_quot v GB))))
         (assign (\<lambda>v d. d\<lparr>available := PInt v\<rparr>)
            (bind_e (loads r) (\<lambda>j. bind_e (getitem_key j ''available'') (\<lambda>v. int_quot v GB)))))"

definition q_snapshot_storage :: "remote \<Rightarrow> unit prog" where
  "q_snapshot_storage api =
     bind_p (fetch api SnapshotStorage) (\<lambda>r.
       assign (\<lambda>v d. d\<lparr>used := PInt v\<rparr>)
         (bind_e (loads r) (\<lambda>j. bind_e (getitem_key j ''value'') (\<lambda>v.
          bind_e (py_int v) (\<lambda>i. int_quot (PInt i) GB)))))"

definition q_avg_growth :: "remote \<Rightarrow> unit prog" where
  "q_avg_growth api =
     bind_p (fetch api AvgGrowth) (\<lambda>r.
       assign (\<lambda>v d. d\<lparr>avg_growth_per_day := PInt v\<rparr>)
         (bind_e (loads r) (\<lambda>j. bind_e (getitem_key j ''bytes'') (\<lambda>v. int_quot v GB))))"

definition q_ingest_per_day :: "remote \<Rightarrow> unit prog" where
  "q_ingest_per_day api =
     bind_p (fetch api IngestPerDay) (\<lambda>r.
     seq (assign (\<lambda>v d. d\<lparr>ingested_yesterday := PInt v\<rparr>)
            (bind_e (loads r) (\<lambda>j. bind_e (getitem_idx j (- 2)) (\<lambda>x.
             bind_e (getitem_key x ''stat'') (\<lambda>v. int_quot v GB)))))
         (assign (\<lambda>v d. d\<lparr>ingested_today := PInt v\<rparr>)
            (bind_e (loads r) (\<lambda>j. bind_e (getitem_idx j (- 1)) (\<lambda>x.
             bind_e (getitem_key x ''stat'') (\<lambda>v. int_quot v GB))))))"

subsection \<open>Node status\<close>

text \<open>\<^verbatim>\<open>range(0, n)\<close> needs an integer; a negative one gives the empty range.\<close>

fun py_range :: "pyval \<Rightarrow> exn + nat list" where
  "py_range (PInt n) = Inr [0..<nat n]"
| "py_range (PBool b) = Inr [0..<of_bool b]"
| "py_range _ = Inl TypeError"

definition node_status_at :: "pyval \<Rightarrow> nat \<Rightarrow> exn + pyval" where
  "node_status_at status_json x =
     bind_e (getitem_key status_json ''data'') (\<lambda>d.
     bind_e (getitem_idx d (int x)) (\<lambda>n. getitem_key n ''status''))"

text \<open>The \<^verbatim>\<open>for\<close> loop: the variable \<open>system_status\<close> is the accumulator.\<close>

fun node_loop :: "pyval \<Rightarrow> nat list \<Rightarrow> pyval \<Rightarrow> exn + pyval" where
  "node_loop status_json [] system_status = Inr system_status"
| "node_loop status_json (x # xs) system_status =
     (case node_status_at status_json x of
        Inl e \<Rightarrow> Inl e
      | Inr st \<Rightarrow>
          if st \<noteq> PStr ''OK'' then node_loop status_json xs st
          else node_loop status_json xs system_status)"

definition system_status_of :: "pyval \<Rightarrow> exn + pyval" where
  "system_status_of status_json =
     bind_e (getitem_key status_json ''total'') (\<lambda>n.
     bind_e (py_range n) (\<lambda>xs. node_loop status_json xs (PStr ''OK'')))"

definition q_node :: "remote \<Rightarrow> unit prog" where
  "q_node api =
     bind_p (fetch api Node) (\<lambda>r.
       assign (\<lambda>v d. d\<lparr>node_status := v\<rparr>) (bind_e (loads r) system_status_of))"

subsection \<open>The three live samples\<close>

definition q_streams :: "remote \<Rightarrow> pyval prog" where
  "q_streams api =
     bind_p (fetch api Streams) (\<lambda>r. lift (bind_e (loads r) (\<lambda>j. getitem_key j ''count'')))"

text \<open>\<^verbatim>\<open>j[a][b][0]["stat"]\<close>\<close>

definition first_stat :: "pyval \<Rightarrow> string \<Rightarrow> string \<Rightarrow> exn + pyval" where
  "first_stat j a b =
     bind_e (getitem_key j a) (\<lambda>x. bind_e (getitem_key x b) (\<lambda>y.
     bind_e (getitem_idx y 0) (\<lambda>z. getitem_key z ''stat'')))"

text \<open>
  Returns \<open>(iops_reads, iops_writes, throughput_reads, throughput_writes)\<close>, the last two
  already in megabytes.
\<close>

definition q_io_stats :: "remote \<Rightarrow> (pyval \<times> pyval \<times> int \<times> int) prog" where
  "q_io_stats api =
     bind_p (fetch api IoStats) (\<lambda>r. lift (
       bind_e (bind_e (loads r) (\<lambda>j. first_stat j ''iops'' ''readsPerSecond'')) (\<lambda>iops_reads.
       bind_e (bind_e (loads r) (\<lambda>j. first_stat j ''iops'' ''writesPerSecond'')) (\<lambda>iops_writes.
       bind_e (bind_e (loads r) (\<lambda>j. first_stat j ''ioThroughput'' ''readBytePerSecond''))
         (\<lambda>throughput_reads.
       bind_e (bind_e (loads r) (\<lambda>j. first_stat j ''ioThroughput'' ''writeBytePerSecond''))
         (\<lambda>throughput_writes.
       bind_e (int_quot throughput_reads MB) (\<lambda>throughput_reads.
       bind_e (int_quot throughput_writes MB) (\<lambda>throughput_writes.
       Inr (iops_reads, iops_writes, throughput_reads, throughput_writes)))))))))"

definition q_ingest :: "remote \<Rightarrow> int prog" where
  "q_ingest api =
     bind_p (fetch api Ingest) (\<lambda>r. lift (
       bind_e (loads r) (\<lambda>j. bind_e (getitem_idx j 0) (\<lambda>x.
       bind_e (getitem_key x ''stat'') (\<lambda>v. int_quot v MB)))))"

section \<open>Saving the datapoints\<close>

text \<open>\<^verbatim>\<open>del xs[0]\<close>\<close>

definition del_first :: "'a list \<Rightarrow> exn + 'a list" where
  "del_first xs = (case xs of [] \<Rightarrow> Inl IndexError | x # ys \<Rightarrow> Inr ys)"

text \<open>
  The \<^verbatim>\<open>if\<close> that follows the four appends: only the length of \<open>iops\<close> is tested, and
  the four deletions run one after the other. The bound is a parameter; the source
  fixes it to \<open>MAX_DATAPOINTS\<close>.
\<close>

definition trim :: "nat \<Rightarrow> unit prog" where
  "trim cap =
     (\<lambda>m. if cap < length (iops (data m)) then
             seq (stmt (\<lambda>v d. d\<lparr>iops := v\<rparr>) (\<lambda>d. del_first (iops d)))
            (seq (stmt (\<lambda>v d. d\<lparr>throughput := v\<rparr>) (\<lambda>d. del_first (throughput d)))
            (seq (stmt (\<lambda>v d. d\<lparr>ingest := v\<rparr>) (\<lambda>d. del_first (ingest d)))
                 (stmt (\<lambda>v d. d\<lparr>streams := v\<rparr>) (\<lambda>d. del_first (streams d))))) m
           else (Inr (), m))"

text \<open>The four appends, given the four values to append, and the trimming.\<close>

definition append_and_trim :: "nat \<Rightarrow> pyval \<times> pyval \<times> pyval \<times> pyval \<Rightarrow> unit prog" where
  "append_and_trim cap smp =
     (case smp of (i, t, g, s) \<Rightarrow>
        seq (stmt (\<lambda>v d. d\<lparr>iops := v\<rparr>) (\<lambda>d. Inr (iops d @ [i])))
       (seq (stmt (\<lambda>v d. d\<lparr>throughput := v\<rparr>) (\<lambda>d. Inr (throughput d @ [t])))
       (seq (stmt (\<lambda>v d. d\<lparr>ingest := v\<rparr>) (\<lambda>d. Inr (ingest d @ [g])))
       (seq (stmt (\<lambda>v d. d\<lparr>streams := v\<rparr>) (\<lambda>d. Inr (streams d @ [s])))
            (trim cap)))))"

text \<open>
  \<^verbatim>\<open>json.dumps\<close> of the data. The values are those of \<open>pyval\<close>, which all have a JSON
  form; what can raise is the decimal text of an integer of more than
  \<open>int_max_str_digits\<close> digits, a ValueError. The sum of two IOPS values can be such an
  integer when neither value is. Values nested beyond the recursion limit of the
  interpreter, on which both \<^verbatim>\<open>json.loads\<close> and \<^verbatim>\<open>json.dumps\<close> raise, are not modelled.
\<close>

fun dumpable :: "pyval \<Rightarrow> bool" where
  "dumpable (PInt n) = (\<bar>n\<bar> < 10 ^ int_max_str_digits)"
| "dumpable (PList xs) = list_all dumpable xs"
| "dumpable (PDict kvs) = list_all dumpable (map snd kvs)"
| "dumpable v = True"

declare dumpable.simps(1) [simp del]

definition json_dumps :: "RubrikData \<Rightarrow> exn + payload" where
  "json_dumps d =
     (if list_all dumpable
           (iops d @ throughput d @ ingest d @ streams d @
            [success_count d, failure_count d, running_count d, total_gb d, used d,
             available d, avg_growth_per_day d, ingested_yesterday d, ingested_today d,
             node_status d])
      then Inr (Stats d) else Inl ValueError)"

text \<open>
  The end of the \<^verbatim>\<open>try\<close> block. The sum of the two IOPS values is the argument of the
  first append, so it is evaluated before anything is appended. The dump comes after
  the appends and the trimming, and \<^verbatim>\<open>rubrik_monitor.json\<close> is assigned only if it
  raised nothing.
\<close>

definition save_datapoints ::
  "pyval \<Rightarrow> pyval \<Rightarrow> int \<Rightarrow> int \<Rightarrow> int \<Rightarrow> pyval \<Rightarrow> unit prog" where
  "save_datapoints iops_reads iops_writes throughput_reads throughput_writes ingest_mb strms =
     bind_p (lift (py_add iops_reads iops_writes)) (\<lambda>i.
     seq (append_and_trim MAX_DATAPOINTS
            (i, PInt (throughput_reads + throughput_writes), PInt ingest_mb, strms))
    (bind_p (\<lambda>m. (json_dumps (data m), m)) (\<lambda>output.
     modify (\<lambda>m. m\<lparr>json := output\<rparr>))))"

section \<open>\<^verbatim>\<open>generate_json\<close>\<close>

text \<open>The body of the \<^verbatim>\<open>try\<close>.\<close>

definition collect :: "remote \<Rightarrow> unit prog" where
  "collect api =
     seq (q_summary api)
    (seq (q_system_storage api)
    (seq (q_snapshot_storage api)
    (seq (q_avg_growth api)
    (seq (q_ingest_per_day api)
    (seq (q_node api)
    (bind_p (q_streams api) (\<lambda>strms.
     bind_p (q_io_stats api) (\<lambda>(iops_reads, iops_writes, throughput_reads, throughput_writes).
     bind_p (q_ingest api) (\<lambda>ingest_mb.
     save_datapoints iops_reads iops_writes throughput_reads throughput_writes
       ingest_mb strms)))))))))"

text \<open>
  How a call of \<^verbatim>\<open>generate_json\<close> ended: it returned after publishing the stats, it
  returned after publishing an error object, or an exception left it.
\<close>

datatype outcome = Stats_Published | Error_Published | Uncaught exn

definition try_collect :: "remote \<Rightarrow> MonitorJSON \<Rightarrow> outcome \<times> MonitorJSON" where
  "try_collect api m =
     (case collect api m of
        (Inr u, m') \<Rightarrow> (Stats_Published, m')
      | (Inl e, m') \<Rightarrow>
          (Error_Published,
           m'\<lparr>json := Error ''Error getting data from Rubrik'', token := PNone,
              session := None\<rparr>))"

definition generate_json :: "remote \<Rightarrow> MonitorJSON \<Rightarrow> outcome \<times> MonitorJSON" where
  "generate_json api m =
     (if token m = PNone then
        (case get_rubrik_token api m of
           (Inl e, m1) \<Rightarrow> (Uncaught e, m1)
         | (Inr tok, m1) \<Rightarrow>
             (let m2 = m1\<lparr>token := tok\<rparr>
              in if tok = PNone then
                   (Error_Published,
                    m2\<lparr>json := Error ''Error getting login token from Rubrik''\<rparr>)
                 else try_collect api m2))
      else try_collect api m)"

text \<open>
  The loop of \<^verbatim>\<open>__main__\<close>, run for as many iterations as there are entries in the
  list, one \<open>remote\<close> for each. An exception that leaves \<^verbatim>\<open>generate_json\<close> ends it.
\<close>

fun main_loop :: "remote list \<Rightarrow> MonitorJSON \<Rightarrow> MonitorJSON" where
  "main_loop [] m = m"
| "main_loop (api # apis) m =
     (case generate_json api m of
        (Uncaught e, m') \<Rightarrow> m'
      | (oc, m') \<Rightarrow> main_loop apis m')"

section \<open>Notions used in the statements\<close>

text \<open>The four time series of the data.\<close>

definition series :: "RubrikData \<Rightarrow> pyval list \<times> pyval list \<times> pyval list \<times> pyval list" where
  "series d = (iops d, throughput d, ingest d, streams d)"

text \<open>The four series have one length, and it is at most \<open>MAX_DATAPOINTS\<close>.\<close>

definition aligned :: "RubrikData \<Rightarrow> bool" where
  "aligned d =
     (length (throughput d) = length (iops d) \<and> length (ingest d) = length (iops d) \<and>
      length (streams d) = length (iops d) \<and> length (iops d) \<le> MAX_DATAPOINTS)"

text \<open>The ten scalar fields, in the order in which the \<^verbatim>\<open>try\<close> block assigns them.\<close>

definition scalars :: "RubrikData \<Rightarrow> pyval list" where
  "scalars d =
     [success_count d, failure_count d, running_count d, total_gb d, available d, used d,
      avg_growth_per_day d, ingested_yesterday d, ingested_today d, node_status d]"

subsection \<open>A query that raises\<close>

text \<open>
  A query raises when its request raises, when the status is not 200, or when any of
  the statements that parse and store its response raises. The statements of a query
  read nothing of the monitor but the session, so the query is run here on the state of
  the constructor with a session in it.
\<close>

definition with_session :: MonitorJSON where
  "with_session = MonitorJSON_init\<lparr>session := Some Session\<rparr>"

definition query_raises :: "remote \<Rightarrow> endpoint \<Rightarrow> bool" where
  "query_raises api q =
     (case q of
        Summary \<Rightarrow> isl (fst (q_summary api with_session))
      | SystemStorage \<Rightarrow> isl (fst (q_system_storage api with_session))
      | SnapshotStorage \<Rightarrow> isl (fst (q_snapshot_storage api with_session))
      | AvgGrowth \<Rightarrow> isl (fst (q_avg_growth api with_session))
      | IngestPerDay \<Rightarrow> isl (fst (q_ingest_per_day api with_session))
      | Node \<Rightarrow> isl (fst (q_node api with_session))
      | Streams \<Rightarrow> isl (fst (q_streams api with_session))
      | IoStats \<Rightarrow> isl (fst (q_io_stats api with_session))
      | Ingest \<Rightarrow> isl (fst (q_ingest api with_session)))"

subsection \<open>Whether the try block is entered\<close>

text \<open>The login of this call returns a token.\<close>

definition login_gives_token :: "remote \<Rightarrow> MonitorJSON \<Rightarrow> bool" where
  "login_gives_token api m =
     (case fst (get_rubrik_token api m) of Inl e \<Rightarrow> False | Inr tok \<Rightarrow> tok \<noteq> PNone)"

text \<open>
  The call reaches the \<^verbatim>\<open>try\<close> block: a token is held already, or the login returns
  one.
\<close>

definition try_entered :: "remote \<Rightarrow> MonitorJSON \<Rightarrow> bool" where
  "try_entered api m = (if token m = PNone then login_gives_token api m else True)"

text \<open>
  The call reaches the \<^verbatim>\<open>try\<close> block with a session to send the queries on: the login
  has just made one, or one is held with the token.
\<close>

definition try_entered_with_session :: "remote \<Rightarrow> MonitorJSON \<Rightarrow> bool" where
  "try_entered_with_session api m =
     (if token m = PNone then login_gives_token api m else session m \<noteq> None)"

subsection \<open>The values parsed for the scalar fields\<close>

text \<open>
  The right-hand sides of the ten scalar assignments, in the order of \<open>scalars\<close>, each as
  a function of what the appliance answers: the request of its query with the status
  check, \<^verbatim>\<open>json.loads\<close>, and the expression of the source.
\<close>

definition fetched :: "remote \<Rightarrow> endpoint \<Rightarrow> exn + response" where
  "fetched api q =
     (case answer api q of
        Fails e \<Rightarrow> Inl e
      | Responds r \<Rightarrow>
          if status_code r \<noteq> 200 then Inl (RubrikNotConnectedException q) else Inr r)"

definition parsed_from :: "remote \<Rightarrow> endpoint \<Rightarrow> (pyval \<Rightarrow> exn + 'a) \<Rightarrow> exn + 'a" where
  "parsed_from api q f = bind_e (fetched api q) (\<lambda>r. bind_e (loads r) f)"

definition gigabytes :: "exn + pyval \<Rightarrow> exn + pyval" where
  "gigabytes e = bind_e e (\<lambda>v. bind_e (int_quot v GB) (\<lambda>i. Inr (PInt i)))"

definition scalar_rhs :: "remote \<Rightarrow> (exn + pyval) list" where
  "scalar_rhs api =
     [parsed_from api Summary (\<lambda>j. getitem_key j ''successCount''),
      parsed_from api Summary (\<lambda>j. getitem_key j ''failureCount''),
      parsed_from api Summary (\<lambda>j. getitem_key j ''runningCount''),
      parsed_from api SystemStorage (\<lambda>j. gigabytes (getitem_key j ''total'')),
      parsed_from api SystemStorage (\<lambda>j. gigabytes (getitem_key j ''available'')),
      parsed_from api SnapshotStorage (\<lambda>j. gigabytes
        (bind_e (getitem_key j ''value'') (\<lambda>v. bind_e (py_int v) (\<lambda>i. Inr (PInt i))))),
      parsed_from api AvgGrowth (\<lambda>j. gigabytes (getitem_key j ''bytes'')),
      parsed_from api IngestPerDay (\<lambda>j. gigabytes
        (bind_e (getitem_idx j (- 2)) (\<lambda>x. getitem_key x ''stat''))),
      parsed_from api IngestPerDay (\<lambda>j. gigabytes
        (bind_e (getitem_idx j (- 1)) (\<lambda>x. getitem_key x ''stat''))),
      parsed_from api Node system_status_of]"

text \<open>
  How many of the ten scalar assignments the call completes: those before the first
  right-hand side that raises, and none when the \<^verbatim>\<open>try\<close> block is not entered with a
  session.
\<close>

definition assigned :: "remote \<Rightarrow> MonitorJSON \<Rightarrow> nat" where
  "assigned api m =
     (if try_entered_with_session api m
      then length (takeWhile (\<lambda>e. \<not> isl e) (scalar_rhs api)) else 0)"

subsection \<open>The queries and the scalar fields they assign\<close>

text \<open>
  The order in which the \<^verbatim>\<open>try\<close> block sends the nine queries, the queries sent before
  a given one, the number of scalar fields that the statements of a query assign, and
  the number of scalar fields assigned before the request of a query is sent.
\<close>

definition query_order :: "endpoint list" where
  "query_order =
     [Summary, SystemStorage, SnapshotStorage, AvgGrowth, IngestPerDay, Node, Streams,
      IoStats, Ingest]"

definition earlier :: "endpoint \<Rightarrow> endpoint list" where
  "earlier q = takeWhile (\<lambda>q'. q' \<noteq> q) query_order"

fun fields_of :: "endpoint \<Rightarrow> nat" where
  "fields_of Summary = 3"
| "fields_of SystemStorage = 2"
| "fields_of SnapshotStorage = 1"
| "fields_of AvgGrowth = 1"
| "fields_of IngestPerDay = 2"
| "fields_of Node = 1"
| "fields_of q = 0"

definition fields_before :: "endpoint \<Rightarrow> nat" where
  "fields_before q = sum_list (map fields_of (earlier q))"

subsection \<open>Properties of a piece of program\<close>

text \<open>
  \<open>keeps f p\<close> says that \<open>p\<close> never changes \<open>f\<close> of the state, \<open>aborts p\<close> that it raises
  whatever the state, \<open>preserves P p\<close> that \<open>P\<close> survives it, \<open>yields P p\<close> that \<open>P\<close> holds
  of the state it leaves whenever it returns without raising.
\<close>

definition keeps :: "(MonitorJSON \<Rightarrow> 'b) \<Rightarrow> 'a prog \<Rightarrow> bool" where
  "keeps f p = (\<forall>m. f (snd (p m)) = f m)"

definition aborts :: "'a prog \<Rightarrow> bool" where
  "aborts p = (\<forall>m. \<exists>e m'. p m = (Inl e, m'))"

definition preserves :: "(MonitorJSON \<Rightarrow> bool) \<Rightarrow> 'a prog \<Rightarrow> bool" where
  "preserves P p = (\<forall>m. P m \<longrightarrow> P (snd (p m)))"

definition yields :: "(MonitorJSON \<Rightarrow> bool) \<Rightarrow> 'a prog \<Rightarrow> bool" where
  "yields P p = (\<forall>m x m'. p m = (Inr x, m') \<longrightarrow> P m')"

text \<open>\<open>f\<close> looks at nothing that an assignment to a scalar field changes.\<close>

definition scalar_blind :: "(MonitorJSON \<Rightarrow> 'b) \<Rightarrow> bool" where
  "scalar_blind f =
     (\<forall>m d. series d = series (data m) \<longrightarrow> f (m\<lparr>data := d\<rparr>) = f m)"

text \<open>A list of assignments, run in order until one raises.\<close>

fun assign_all :: "((pyval \<Rightarrow> RubrikData \<Rightarrow> RubrikData) \<times> (exn + pyval)) list \<Rightarrow> unit prog" where
  "assign_all [] = ret ()"
| "assign_all ((upd, e) # rest) = seq (assign upd e) (assign_all rest)"

text \<open>
  A run of appends: the four appends and the trimming, once for each sample of the
  list, in order.
\<close>

fun append_all :: "nat \<Rightarrow> (pyval \<times> pyval \<times> pyval \<times> pyval) list \<Rightarrow> unit prog" where
  "append_all cap [] = ret ()"
| "append_all cap (smp # smps) = seq (append_and_trim cap smp) (append_all cap smps)"

text \<open>The ten scalar assignments: which field each one writes, in the order of \<open>scalars\<close>.\<close>

definition scalar_updates :: "(pyval \<Rightarrow> RubrikData \<Rightarrow> RubrikData) list" where
  "scalar_updates =
     [\<lambda>v d. d\<lparr>success_count := v\<rparr>, \<lambda>v d. d\<lparr>failure_count := v\<rparr>,
      \<lambda>v d. d\<lparr>running_count := v\<rparr>, \<lambda>v d. d\<lparr>total_gb := v\<rparr>,
      \<lambda>v d. d\<lparr>available := v\<rparr>, \<lambda>v d. d\<lparr>used := v\<rparr>,
      \<lambda>v d. d\<lparr>avg_growth_per_day := v\<rparr>, \<lambda>v d. d\<lparr>ingested_yesterday := v\<rparr>,
      \<lambda>v d. d\<lparr>ingested_today := v\<rparr>, \<lambda>v d. d\<lparr>node_status := v\<rparr>]"

section \<open>Example answers of the appliance\<close>

text \<open>
  The shapes come from the subscripts of the source: a list of \<^verbatim>\<open>{"stat": n}\<close> for a
  time series, and \<^verbatim>\<open>{"data": [{"status": s}, ...], "total": n}\<close> for the node list.
\<close>

definition ok :: "pyval \<Rightarrow> http_result" where
  "ok body = Responds \<lparr>status_code = 200, loads_text = Some body\<rparr>"

definition stat_series :: "int list \<Rightarrow> pyval" where
  "stat_series xs = PList (map (\<lambda>x. PDict [(''stat'', PInt x)]) xs)"

definition node_report :: "pyval list \<Rightarrow> pyval" where
  "node_report sts =
     PDict [(''data'', PList (map (\<lambda>s. PDict [(''status'', s)]) sts)),
            (''total'', PInt (int (length sts)))]"

definition io_report :: "int \<Rightarrow> int \<Rightarrow> int \<Rightarrow> int \<Rightarrow> pyval" where
  "io_report ir iw tr tw =
     PDict [(''iops'', PDict [(''readsPerSecond'', stat_series [ir]),
                              (''writesPerSecond'', stat_series [iw])]),
            (''ioThroughput'', PDict [(''readBytePerSecond'', stat_series [tr]),
                                      (''writeBytePerSecond'', stat_series [tw])])]"

definition good_answer :: "endpoint \<Rightarrow> http_result" where
  "good_answer q =
     (case q of
        Summary \<Rightarrow> ok (PDict [(''successCount'', PInt 12), (''failureCount'', PInt 1),
                                (''runningCount'', PInt 2)])
      | SystemStorage \<Rightarrow> ok (PDict [(''total'', PInt 5000000000),
                                      (''available'', PInt 3999999999)])
      | SnapshotStorage \<Rightarrow> ok (PDict [(''value'', PStr ''1500000000'')])
      | AvgGrowth \<Rightarrow> ok (PDict [(''bytes'', PInt 2500000000)])
      | IngestPerDay \<Rightarrow> ok (stat_series [7000000000, 8000000000, 9000000000])
      | Node \<Rightarrow> ok (node_report [PStr ''OK'', PStr ''OK'', PStr ''OK''])
      | Streams \<Rightarrow> ok (PDict [(''count'', PInt 4)])
      | IoStats \<Rightarrow> ok (io_report 100 50 1572864 1572864)
      | Ingest \<Rightarrow> ok (stat_series [3145728]))"

definition good_login :: http_result where
  "good_login = ok (PDict [(''token'', PStr ''8de9d44f''), (''userId'', PStr ''a4c2'')])"

definition good_api :: remote where
  "good_api = \<lparr>login = good_login, answer = good_answer\<rparr>"

text \<open>The second query answers with status 500.\<close>

definition storage_down_api :: remote where
  "storage_down_api =
     \<lparr>login = good_login,
      answer = good_answer
        (SystemStorage := Responds \<lparr>status_code = 500, loads_text = None\<rparr>)\<rparr>"

text \<open>The login cannot connect.\<close>

definition unreachable_api :: remote where
  "unreachable_api = \<lparr>login = Fails ConnectionError, answer = good_answer\<rparr>"

text \<open>The login is answered with a page that is not JSON.\<close>

definition garbled_login_api :: remote where
  "garbled_login_api =
     \<lparr>login = Responds \<lparr>status_code = 502, loads_text = None\<rparr>, answer = good_answer\<rparr>"

text \<open>A read rate of \<open>2 ^ 54 - 1\<close> bytes per second.\<close>

definition huge_rate_api :: remote where
  "huge_rate_api =
     \<lparr>login = good_login,
      answer = good_answer (IoStats := ok (io_report 100 50 18014398509481983 0))\<rparr>"

text \<open>The first query times out.\<close>

definition summary_down_api :: remote where
  "summary_down_api = \<lparr>login = good_login, answer = good_answer (Summary := Fails Timeout)\<rparr>"

text \<open>The second query is answered without \<^verbatim>\<open>"available"\<close>.\<close>

definition partial_storage_api :: remote where
  "partial_storage_api =
     \<lparr>login = good_login,
      answer = good_answer (SystemStorage := ok (PDict [(''total'', PInt 7000000000)]))\<rparr>"

text \<open>The last query is answered with an empty list.\<close>

definition empty_ingest_api :: remote where
  "empty_ingest_api = \<lparr>login = good_login, answer = good_answer (Ingest := ok (PList []))\<rparr>"

section \<open>The conversions below the precision of a double\<close>

lemma bit_length_upper: "n < 2 ^ bit_length n"
proof (induction n rule: bit_length.induct)
  case (1 n)
  show ?case
  proof (cases "n = 0")
    case True
    then show ?thesis by (simp add: bit_length.simps)
  next
    case False
    with 1 have "n div 2 < 2 ^ bit_length (n div 2)" by simp
    then have "n < 2 * 2 ^ bit_length (n div 2)" by linarith
    with False show ?thesis by (simp add: bit_length.simps [of n])
  qed
qed

lemma bit_length_lower: "0 < n \<Longrightarrow> 2 ^ (bit_length n - 1) \<le> n"
proof (induction n rule: bit_length.induct)
  case (1 n)
  show ?case
  proof (cases "n div 2 = 0")
    case True
    with 1 have "n = 1" by linarith
    then show ?thesis by (simp add: bit_length.simps)
  next
    case False
    with 1 have ih: "2 ^ (bit_length (n div 2) - 1) \<le> n div 2" by simp
    from False have "bit_length (n div 2) \<noteq> 0" by (simp add: bit_length.simps [of "n div 2"])
    then have "bit_length n - 1 = Suc (bit_length (n div 2) - 1)"
      using 1 by (simp add: bit_length.simps [of n])
    with ih show ?thesis by simp
  qed
qed

lemma round_half_even_lower: "n div d \<le> round_half_even n d"
  by (simp add: round_half_even_def Let_def)

lemma round_half_even_less:
  assumes "2 * n + d < 2 * M * d"
  shows "round_half_even n d < M"
proof -
  have d: "0 < d" using assms by (cases d) auto
  define q r where "q = n div d" and "r = n mod d"
  have n: "n = q * d + r" by (simp add: q_def r_def)
  have q: "q < M"
  proof (rule ccontr)
    assume "\<not> q < M"
    then have "M * d \<le> q * d" by simp
    with n assms show False by simp
  qed
  have up: "Suc q < M" if "d \<le> 2 * r"
  proof (rule ccontr)
    assume "\<not> Suc q < M"
    then have "M \<le> Suc q" by simp
    then have "M * d \<le> Suc q * d" by (rule mult_le_mono1)
    with n assms that show False by simp
  qed
  show ?thesis
    using q up by (auto simp: round_half_even_def Let_def q_def [symmetric] r_def [symmetric])
qed

lemma round_scaled_div:
  assumes b: "0 < b" and bT: "b < 2 * T" and T: "0 < T"
  shows "round_half_even (a * T) b div T = a div b"
proof -
  define k r where "k = a div b" and "r = a mod b"
  have a: "a = k * b + r" by (simp add: k_def r_def)
  have r: "Suc r \<le> b" using b by (simp add: r_def Suc_le_eq)
  have "k * T \<le> (a * T) div b"
  proof -
    have "k * T * b \<le> a * T" by (simp add: a algebra_simps)
    then show ?thesis using b by (simp add: less_eq_div_iff_mult_less_eq)
  qed
  then have lo: "k * T \<le> round_half_even (a * T) b"
    using round_half_even_lower [of "a * T" b] by linarith
  have "2 * (a * T) + b < 2 * (Suc k * T) * b"
  proof -
    have "Suc r * T \<le> b * T" using r by (rule mult_le_mono1)
    then have "2 * (r * T) + 2 * T \<le> 2 * (b * T)" by simp
    with bT have "2 * (r * T) + b < 2 * (b * T)" by linarith
    then show ?thesis by (simp add: a algebra_simps)
  qed
  then have hi: "round_half_even (a * T) b < Suc k * T" by (rule round_half_even_less)
  from lo hi T have "round_half_even (a * T) b div T = k"
    by (metis div_nat_eqI mult.commute)
  then show ?thesis by (simp add: k_def)
qed


lemma floor_log2_quot_less:
  assumes a: "0 < a" and b: "0 < b" and ab: "a < b * 2 ^ E"
  shows "floor_log2_quot a b < int E"
proof -
  define d where "d = int (bit_length a) - int (bit_length b)"
  have "(2::nat) ^ (bit_length a - 1) \<le> a" using a by (rule bit_length_lower)
  also have "a < b * 2 ^ E" by (rule ab)
  also have "b * 2 ^ E < 2 ^ bit_length b * 2 ^ E"
    using bit_length_upper [of b] by simp
  finally have "(2::nat) ^ (bit_length a - 1) < 2 ^ (bit_length b + E)"
    by (simp add: power_add)
  then have "bit_length a - 1 < bit_length b + E" by simp
  then have dE: "d \<le> int E" by (simp add: d_def)
  show ?thesis
  proof (cases "d = int E")
    case True
    then have "nat d = E" "nat (- d) = 0" by simp_all
    with ab have "\<not> b * 2 ^ nat d \<le> a * 2 ^ nat (- d)" by simp
    then have "floor_log2_quot a b = d - 1"
      by (simp add: floor_log2_quot_def d_def Let_def)
    with True show ?thesis by simp
  next
    case False
    with dE have "d < int E" by simp
    moreover have "floor_log2_quot a b \<le> d"
      by (simp add: floor_log2_quot_def d_def Let_def)
    ultimately show ?thesis by simp
  qed
qed

lemma int_quot_exact:
  assumes a: "0 \<le> a" and ab: "a < c * 2 ^ E" and c: "0 < c"
    and E: "E \<le> 52" and cE: "c < 2 ^ (54 - E)"
  shows "int_quot (PInt a) c = Inr (a div c)"
proof (cases "a = 0")
  case True
  with c show ?thesis
    by (simp add: int_quot_def bind_e_def int_truediv_def int_of_float_def)
next
  case False
  define n b where "n = nat a" and "b = nat c"
  have n: "0 < n" and b: "0 < b" using a False c by (simp_all add: n_def b_def)
  have an: "a = int n" and cb: "c = int b" using a c by (simp_all add: n_def b_def)
  have "int n < int (b * 2 ^ E)" using ab by (simp add: an cb)
  then have nb: "n < b * 2 ^ E" by (simp only: of_nat_less_iff)
  define s where "s = max (floor_log2_quot n b - 52) (- 1074)"
  have e: "floor_log2_quot n b < int E" using n b nb by (rule floor_log2_quot_less)
  with E have s_neg: "s < 0" by (simp add: s_def)
  have s_up: "s \<le> int E - 53" using e E by (simp add: s_def)
  define T :: nat where "T = 2 ^ nat (- s)"
  have T: "0 < T" by (simp add: T_def)
  have "53 - E \<le> nat (- s)" using s_up by linarith
  then have "(2::nat) ^ (53 - E) \<le> T" by (simp add: T_def)
  moreover have "int b < int (2 ^ (54 - E))" using cE by (simp add: cb)
  then have "b < 2 ^ (54 - E)" by (simp only: of_nat_less_iff)
  moreover have "(2::nat) ^ (54 - E) = 2 * 2 ^ (53 - E)"
    using E by (simp add: Suc_diff_le flip: power_Suc)
  ultimately have bT: "b < 2 * T" by linarith
  have nd: "nearest_double n b = (round_half_even (n * T) b, s)"
    using s_neg by (simp add: nearest_double_def s_def [symmetric] T_def Let_def)
  have q: "round_half_even (n * T) b div T = n div b"
    using b bT T by (rule round_scaled_div)
  have "int_quot (PInt a) c = Inr (int (round_half_even (n * T) b) div int T)"
    using n b s_neg
    by (simp add: int_quot_def bind_e_def int_truediv_def an cb nd int_of_float_def
        T_def sgn_if)
  also have "int (round_half_even (n * T) b) div int T = int (n div b)"
    by (simp add: q flip: zdiv_int)
  finally show ?thesis by (simp add: an cb zdiv_int)
qed

lemma gb_exact: "0 \<le> a \<Longrightarrow> a < 2 ^ 24 * 10 ^ 9 \<Longrightarrow> int_quot (PInt a) GB = Inr (a div 10 ^ 9)"
  using int_quot_exact [of a GB 24] by (simp add: GB_def)

lemma mb_exact: "0 \<le> a \<Longrightarrow> a < 2 ^ 53 \<Longrightarrow> int_quot (PInt a) MB = Inr (a div 2 ^ 20)"
  using int_quot_exact [of a MB 33] by (simp add: MB_def)

section \<open>Frame rules for the statements\<close>

lemma keeps_ret: "keeps f (ret x)"
  by (simp add: keeps_def ret_def)

lemma keeps_raise: "keeps f (raise e)"
  by (simp add: keeps_def raise_def)

lemma keeps_lift: "keeps f (lift r)"
  by (simp add: keeps_def lift_def)

lemma keeps_bind:
  assumes "keeps f p" and "\<And>x. keeps f (g x)"
  shows "keeps f (bind_p p g)"
  unfolding keeps_def
proof
  fix m
  show "f (snd (bind_p p g m)) = f m"
  proof (cases "p m")
    case (Pair r m1)
    with assms(1) have m1: "f m1 = f m" by (metis keeps_def snd_conv)
    show ?thesis
    proof (cases r)
      case (Inl e)
      with Pair m1 show ?thesis by (simp add: bind_p_def)
    next
      case (Inr x)
      from assms(2) have "f (snd (g x m1)) = f m1" by (simp add: keeps_def)
      with Inr Pair m1 show ?thesis by (simp add: bind_p_def)
    qed
  qed
qed

lemma keeps_seq: "keeps f p \<Longrightarrow> keeps f q \<Longrightarrow> keeps f (seq p q)"
  by (simp add: seq_def keeps_bind)

lemma keeps_stmt:
  assumes "\<And>v m. f (m\<lparr>data := upd v (data m)\<rparr>) = f m"
  shows "keeps f (stmt upd rhs)"
  using assms by (simp add: keeps_def stmt_def split: sum.split)

lemma keeps_assign:
  assumes "\<And>v m. f (m\<lparr>data := upd v (data m)\<rparr>) = f m"
  shows "keeps f (assign upd e)"
  unfolding assign_def using assms by (rule keeps_stmt)

lemma keeps_session_get: "keeps f (session_get api q)"
  by (simp add: keeps_def session_get_def split: option.split http_result.split)

lemma keeps_fetch: "keeps f (fetch api q)"
  unfolding fetch_def
  by (intro keeps_bind keeps_session_get) (simp add: keeps_raise keeps_ret)

subsection \<open>The queries\<close>

lemma keeps_q_summary:
  assumes "\<And>v m. f (m\<lparr>data := (data m)\<lparr>success_count := v\<rparr>\<rparr>) = f m"
    and "\<And>v m. f (m\<lparr>data := (data m)\<lparr>failure_count := v\<rparr>\<rparr>) = f m"
    and "\<And>v m. f (m\<lparr>data := (data m)\<lparr>running_count := v\<rparr>\<rparr>) = f m"
  shows "keeps f (q_summary api)"
  unfolding q_summary_def
  by (intro keeps_bind keeps_seq keeps_assign keeps_fetch) (simp_all add: assms)

lemma keeps_q_system_storage:
  assumes "\<And>v m. f (m\<lparr>data := (data m)\<lparr>total_gb := v\<rparr>\<rparr>) = f m"
    and "\<And>v m. f (m\<lparr>data := (data m)\<lparr>available := v\<rparr>\<rparr>) = f m"
  shows "keeps f (q_system_storage api)"
  unfolding q_system_storage_def
  by (intro keeps_bind keeps_seq keeps_assign keeps_fetch) (simp_all add: assms)

lemma keeps_q_snapshot_storage:
  assumes "\<And>v m. f (m\<lparr>data := (data m)\<lparr>used := v\<rparr>\<rparr>) = f m"
  shows "keeps f (q_snapshot_storage api)"
  unfolding q_snapshot_storage_def
  by (intro keeps_bind keeps_seq keeps_assign keeps_fetch) (simp_all add: assms)

lemma keeps_q_avg_growth:
  assumes "\<And>v m. f (m\<lparr>data := (data m)\<lparr>avg_growth_per_day := v\<rparr>\<rparr>) = f m"
  shows "keeps f (q_avg_growth api)"
  unfolding q_avg_growth_def
  by (intro keeps_bind keeps_seq keeps_assign keeps_fetch) (simp_all add: assms)

lemma keeps_q_ingest_per_day:
  assumes "\<And>v m. f (m\<lparr>data := (data m)\<lparr>ingested_yesterday := v\<rparr>\<rparr>) = f m"
    and "\<And>v m. f (m\<lparr>data := (data m)\<lparr>ingested_today := v\<rparr>\<rparr>) = f m"
  shows "keeps f (q_ingest_per_day api)"
  unfolding q_ingest_per_day_def
  by (intro keeps_bind keeps_seq keeps_assign keeps_fetch) (simp_all add: assms)

lemma keeps_q_node:
  assumes "\<And>v m. f (m\<lparr>data := (data m)\<lparr>node_status := v\<rparr>\<rparr>) = f m"
  shows "keeps f (q_node api)"
  unfolding q_node_def
  by (intro keeps_bind keeps_seq keeps_assign keeps_fetch) (simp_all add: assms)

lemma keeps_q_streams: "keeps f (q_streams api)"
  unfolding q_streams_def by (intro keeps_bind keeps_fetch keeps_lift)

lemma keeps_q_io_stats: "keeps f (q_io_stats api)"
  unfolding q_io_stats_def by (intro keeps_bind keeps_fetch keeps_lift)

lemma keeps_q_ingest: "keeps f (q_ingest api)"
  unfolding q_ingest_def by (intro keeps_bind keeps_fetch keeps_lift)

lemma keeps_scalar_queries:
  assumes "scalar_blind f"
  shows "keeps f (q_summary api)" "keeps f (q_system_storage api)"
    "keeps f (q_snapshot_storage api)" "keeps f (q_avg_growth api)"
    "keeps f (q_ingest_per_day api)" "keeps f (q_node api)"
  using assms
  by (auto intro!: keeps_q_summary keeps_q_system_storage keeps_q_snapshot_storage
      keeps_q_avg_growth keeps_q_ingest_per_day keeps_q_node
      simp: scalar_blind_def series_def)

subsection \<open>Saving the datapoints\<close>

lemma del_first_snoc: "del_first (xs @ [v]) = Inr (tl (xs @ [v]))"
  by (cases xs) (simp_all add: del_first_def)

lemma append_and_trim_eq:
  "append_and_trim cap (i, t, g, s) m =
     (Inr (),
      m\<lparr>data := (data m)
         \<lparr>iops := (if cap \<le> length (iops (data m)) then tl (iops (data m) @ [i])
                    else iops (data m) @ [i]),
          throughput := (if cap \<le> length (iops (data m)) then tl (throughput (data m) @ [t])
                    else throughput (data m) @ [t]),
          ingest := (if cap \<le> length (iops (data m)) then tl (ingest (data m) @ [g])
                    else ingest (data m) @ [g]),
          streams := (if cap \<le> length (iops (data m)) then tl (streams (data m) @ [s])
                    else streams (data m) @ [s])\<rparr>\<rparr>)"
  by (simp add: append_and_trim_def trim_def seq_def bind_p_def stmt_def del_first_snoc
      less_Suc_eq_le)

lemma save_datapoints_eq:
  "save_datapoints ir iw tr tw g st m =
     (case py_add ir iw of
        Inl e \<Rightarrow> (Inl e, m)
      | Inr i \<Rightarrow>
          (case json_dumps
                  (data (snd (append_and_trim MAX_DATAPOINTS (i, PInt (tr + tw), PInt g, st) m)))
           of
             Inl e \<Rightarrow>
               (Inl e, snd (append_and_trim MAX_DATAPOINTS (i, PInt (tr + tw), PInt g, st) m))
           | Inr output \<Rightarrow>
               (Inr (),
                (snd (append_and_trim MAX_DATAPOINTS (i, PInt (tr + tw), PInt g, st) m))
                  \<lparr>json := output\<rparr>)))"
  by (simp add: save_datapoints_def bind_p_def lift_def seq_def modify_def append_and_trim_eq
      split: sum.split)

lemma json_dumps_Inr: "json_dumps d = Inr output \<Longrightarrow> output = Stats d"
  by (auto simp: json_dumps_def split: if_splits)

subsection \<open>The body of the try block\<close>

lemma scalar_blind_series: "scalar_blind (\<lambda>m. series (data m))"
  by (simp add: scalar_blind_def)

lemma preserves_bind:
  assumes "preserves P p" and "\<And>x. preserves P (g x)"
  shows "preserves P (bind_p p g)"
  unfolding preserves_def
proof (intro allI impI)
  fix m
  assume P: "P m"
  obtain r m1 where p: "p m = (r, m1)" by (cases "p m")
  with assms(1) P have m1: "P m1" by (metis preserves_def snd_conv)
  show "P (snd (bind_p p g m))"
  proof (cases r)
    case (Inl e)
    with p m1 show ?thesis by (simp add: bind_p_def)
  next
    case (Inr x)
    from assms(2) m1 have "P (snd (g x m1))" by (simp add: preserves_def)
    with Inr p show ?thesis by (simp add: bind_p_def)
  qed
qed

lemma preserves_seq: "preserves P p \<Longrightarrow> preserves P q \<Longrightarrow> preserves P (seq p q)"
  by (simp add: seq_def preserves_bind)

lemma keeps_preserves: "keeps f p \<Longrightarrow> preserves (\<lambda>m. I (f m)) p"
  by (simp add: keeps_def preserves_def)

lemma preserves_aligned_save:
  "preserves (\<lambda>m. aligned (data m)) (save_datapoints ir iw tr tw g st)"
  by (auto simp: preserves_def save_datapoints_eq append_and_trim_eq aligned_def
      split: sum.split)

lemma preserves_aligned_collect: "preserves (\<lambda>m. aligned (data m)) (collect api)"
proof -
  have al: "aligned d = (\<lambda>(a, b, c, e). length b = length a \<and> length c = length a \<and>
      length e = length a \<and> length a \<le> MAX_DATAPOINTS) (series d)" for d
    by (simp add: aligned_def series_def)
  have k: "keeps (\<lambda>m. series (data m)) p \<Longrightarrow> preserves (\<lambda>m. aligned (data m)) p"
    for p :: "'a prog"
    unfolding al by (rule keeps_preserves)
  note q = keeps_scalar_queries [OF scalar_blind_series, THEN k]
    keeps_q_streams [THEN k] keeps_q_io_stats [THEN k] keeps_q_ingest [THEN k]
  show ?thesis
    unfolding collect_def
    by (intro preserves_seq preserves_bind q)
      (simp add: split_def preserves_bind q preserves_aligned_save)
qed

section \<open>A query that fails stops the cycle\<close>

lemmas unfold_raises = fetch_def session_get_def bind_p_def raise_def ret_def seq_def isl_def
  assign_def stmt_def lift_def loads_def bind_e_def

lemmas query_splits = option.splits http_result.splits sum.splits if_splits

lemma aborts_q_summary: "query_raises api Summary \<Longrightarrow> aborts (q_summary api)"
  by (auto simp: query_raises_def aborts_def with_session_def q_summary_def unfold_raises
      split: query_splits)

lemma aborts_q_system_storage:
  "query_raises api SystemStorage \<Longrightarrow> aborts (q_system_storage api)"
  by (auto simp: query_raises_def aborts_def with_session_def q_system_storage_def unfold_raises
      split: query_splits)

lemma aborts_q_snapshot_storage:
  "query_raises api SnapshotStorage \<Longrightarrow> aborts (q_snapshot_storage api)"
  by (auto simp: query_raises_def aborts_def with_session_def q_snapshot_storage_def
      unfold_raises split: query_splits)

lemma aborts_q_avg_growth: "query_raises api AvgGrowth \<Longrightarrow> aborts (q_avg_growth api)"
  by (auto simp: query_raises_def aborts_def with_session_def q_avg_growth_def unfold_raises
      split: query_splits)

lemma aborts_q_ingest_per_day:
  "query_raises api IngestPerDay \<Longrightarrow> aborts (q_ingest_per_day api)"
  by (auto simp: query_raises_def aborts_def with_session_def q_ingest_per_day_def unfold_raises
      split: query_splits)

lemma aborts_q_node: "query_raises api Node \<Longrightarrow> aborts (q_node api)"
  by (auto simp: query_raises_def aborts_def with_session_def q_node_def unfold_raises
      split: query_splits)

lemma aborts_q_streams: "query_raises api Streams \<Longrightarrow> aborts (q_streams api)"
  by (auto simp: query_raises_def aborts_def with_session_def q_streams_def unfold_raises
      split: query_splits)

lemma aborts_q_io_stats: "query_raises api IoStats \<Longrightarrow> aborts (q_io_stats api)"
  by (auto simp: query_raises_def aborts_def with_session_def q_io_stats_def unfold_raises
      split: query_splits)

lemma aborts_q_ingest: "query_raises api Ingest \<Longrightarrow> aborts (q_ingest api)"
  by (auto simp: query_raises_def aborts_def with_session_def q_ingest_def unfold_raises
      split: query_splits)

text \<open>
  A query reads nothing of the state but the session: on every state that holds a
  session it raises exactly when \<open>query_raises\<close> says so.
\<close>

lemma query_raises_iff:
  assumes "session m \<noteq> None"
  shows "isl (fst (q_summary api m)) = query_raises api Summary"
    and "isl (fst (q_system_storage api m)) = query_raises api SystemStorage"
    and "isl (fst (q_snapshot_storage api m)) = query_raises api SnapshotStorage"
    and "isl (fst (q_avg_growth api m)) = query_raises api AvgGrowth"
    and "isl (fst (q_ingest_per_day api m)) = query_raises api IngestPerDay"
    and "isl (fst (q_node api m)) = query_raises api Node"
    and "isl (fst (q_streams api m)) = query_raises api Streams"
    and "isl (fst (q_io_stats api m)) = query_raises api IoStats"
    and "isl (fst (q_ingest api m)) = query_raises api Ingest"
  using assms
  by (auto simp: query_raises_def with_session_def q_summary_def q_system_storage_def
      q_snapshot_storage_def q_avg_growth_def q_ingest_per_day_def q_node_def q_streams_def
      q_io_stats_def q_ingest_def fetch_def session_get_def bind_p_def raise_def ret_def
      seq_def assign_def stmt_def lift_def split: query_splits)

lemma aborts_bind_left: "aborts p \<Longrightarrow> aborts (bind_p p g)"
  unfolding aborts_def bind_p_def
proof
  fix m
  assume "\<forall>m. \<exists>e m'. p m = (Inl e, m')"
  then obtain e m' where "p m = (Inl e, m')" by blast
  then show "\<exists>e m'a. (case p m of (Inl e, m') \<Rightarrow> (Inl e, m') | (Inr x, m') \<Rightarrow> g x m') = (Inl e, m'a)"
    by simp
qed

lemma aborts_bind_right:
  assumes "\<And>x. aborts (g x)"
  shows "aborts (bind_p p g)"
  unfolding aborts_def
proof
  fix m
  obtain r m1 where p: "p m = (r, m1)" by (cases "p m")
  show "\<exists>e m'. bind_p p g m = (Inl e, m')"
  proof (cases r)
    case (Inl e)
    with p show ?thesis by (simp add: bind_p_def)
  next
    case (Inr x)
    from assms obtain e m' where "g x m1 = (Inl e, m')" unfolding aborts_def by blast
    with Inr p show ?thesis by (simp add: bind_p_def)
  qed
qed

lemma aborts_seq_left: "aborts p \<Longrightarrow> aborts (seq p q)"
  by (simp add: seq_def aborts_bind_left)

lemma aborts_seq_right: "aborts q \<Longrightarrow> aborts (seq p q)"
  by (simp add: seq_def aborts_bind_right)

lemma aborts_collect:
  assumes "query_raises api q"
  shows "aborts (collect api)"
proof (cases q)
  case Summary
  with assms show ?thesis unfolding collect_def
    by (intro aborts_seq_left aborts_q_summary) simp
next
  case SystemStorage
  with assms show ?thesis unfolding collect_def
    by (intro aborts_seq_right aborts_seq_left [of "q_system_storage api"]
        aborts_q_system_storage) simp
next
  case SnapshotStorage
  with assms show ?thesis unfolding collect_def
    by (intro aborts_seq_right aborts_seq_left [of "q_snapshot_storage api"]
        aborts_q_snapshot_storage) simp
next
  case AvgGrowth
  with assms show ?thesis unfolding collect_def
    by (intro aborts_seq_right aborts_seq_left [of "q_avg_growth api"]
        aborts_q_avg_growth) simp
next
  case IngestPerDay
  with assms show ?thesis unfolding collect_def
    by (intro aborts_seq_right aborts_seq_left [of "q_ingest_per_day api"]
        aborts_q_ingest_per_day) simp
next
  case Node
  with assms show ?thesis unfolding collect_def
    by (intro aborts_seq_right aborts_seq_left [of "q_node api"] aborts_q_node) simp
next
  case Streams
  with assms show ?thesis unfolding collect_def
    by (intro aborts_seq_right aborts_bind_left [of "q_streams api"] aborts_q_streams) simp
next
  case IoStats
  with assms show ?thesis unfolding collect_def
    by (intro aborts_seq_right aborts_bind_right [of _ "q_streams api"]
        aborts_bind_left [of "q_io_stats api"] aborts_q_io_stats) simp
next
  case Ingest
  with assms have f: "aborts (q_ingest api)" by (simp add: aborts_q_ingest)
  show ?thesis unfolding collect_def
    by (intro aborts_seq_right aborts_bind_right [of _ "q_streams api"]
        aborts_bind_right [of _ "q_io_stats api"])
      (simp add: split_def aborts_bind_left f)
qed

text \<open>A piece that always raises hides what would follow it.\<close>

lemma keeps_bind_aborts:
  assumes "keeps f p" and "aborts p"
  shows "keeps f (bind_p p g)"
  unfolding keeps_def
proof
  fix m
  from assms(2) obtain e m1 where p: "p m = (Inl e, m1)" unfolding aborts_def by blast
  then have "snd (bind_p p g m) = snd (p m)" by (simp add: bind_p_def)
  with assms(1) show "f (snd (bind_p p g m)) = f m" by (simp add: keeps_def)
qed

lemma keeps_seq_aborts: "keeps f p \<Longrightarrow> aborts p \<Longrightarrow> keeps f (seq p q)"
  by (simp add: seq_def keeps_bind_aborts)

lemma keeps_series_collect:
  assumes "query_raises api q"
  shows "keeps (\<lambda>m. series (data m)) (collect api)"
proof -
  note ks = keeps_scalar_queries [OF scalar_blind_series, of api]
  note kq = keeps_q_streams [of "\<lambda>m. series (data m)" api]
    keeps_q_io_stats [of "\<lambda>m. series (data m)" api]
    keeps_q_ingest [of "\<lambda>m. series (data m)" api]
  show ?thesis
  proof (cases q)
    case Summary
    with assms show ?thesis unfolding collect_def
      by (intro keeps_seq_aborts ks aborts_q_summary) simp
  next
    case SystemStorage
    with assms have "aborts (q_system_storage api)" by (simp add: aborts_q_system_storage)
    then show ?thesis unfolding collect_def
      by (intro keeps_seq ks(1) keeps_seq_aborts ks(2))
  next
    case SnapshotStorage
    with assms have "aborts (q_snapshot_storage api)" by (simp add: aborts_q_snapshot_storage)
    then show ?thesis unfolding collect_def
      by (intro keeps_seq ks(1,2) keeps_seq_aborts ks(3))
  next
    case AvgGrowth
    with assms have "aborts (q_avg_growth api)" by (simp add: aborts_q_avg_growth)
    then show ?thesis unfolding collect_def
      by (intro keeps_seq ks(1-3) keeps_seq_aborts ks(4))
  next
    case IngestPerDay
    with assms have "aborts (q_ingest_per_day api)" by (simp add: aborts_q_ingest_per_day)
    then show ?thesis unfolding collect_def
      by (intro keeps_seq ks(1-4) keeps_seq_aborts ks(5))
  next
    case Node
    with assms have "aborts (q_node api)" by (simp add: aborts_q_node)
    then show ?thesis unfolding collect_def
      by (intro keeps_seq ks(1-5) keeps_seq_aborts ks(6))
  next
    case Streams
    with assms have "aborts (q_streams api)" by (simp add: aborts_q_streams)
    then show ?thesis unfolding collect_def
      by (intro keeps_seq ks keeps_bind_aborts kq(1))
  next
    case IoStats
    with assms have "aborts (q_io_stats api)" by (simp add: aborts_q_io_stats)
    then show ?thesis unfolding collect_def
      by (intro keeps_seq ks keeps_bind kq(1) keeps_bind_aborts kq(2))
  next
    case Ingest
    with assms have "aborts (q_ingest api)" by (simp add: aborts_q_ingest)
    then show ?thesis unfolding collect_def
      by (intro keeps_seq ks keeps_bind kq(1,2))
        (simp add: split_def keeps_bind_aborts kq(3))
  qed
qed

section \<open>What a call of \<^verbatim>\<open>generate_json\<close> does to the data\<close>

lemma get_rubrik_token_state: "snd (get_rubrik_token api m) = m\<lparr>session := Some Session\<rparr>"
  by (simp add: get_rubrik_token_def seq_def bind_p_def modify_def ret_def raise_def lift_def
      split: http_result.split)

lemma generate_json_unfold:
  "generate_json api m =
     (if token m = PNone then
        (case fst (get_rubrik_token api m) of
           Inl e \<Rightarrow> (Uncaught e, m\<lparr>session := Some Session\<rparr>)
         | Inr tok \<Rightarrow>
             if tok = PNone then
               (Error_Published,
                m\<lparr>session := Some Session, token := PNone,
                  json := Error ''Error getting login token from Rubrik''\<rparr>)
             else try_collect api (m\<lparr>session := Some Session, token := tok\<rparr>))
      else try_collect api m)"
proof -
  obtain r where r: "get_rubrik_token api m = (r, m\<lparr>session := Some Session\<rparr>)"
    by (metis get_rubrik_token_state prod.collapse)
  show ?thesis
    by (cases r) (simp_all add: generate_json_def r Let_def)
qed

lemma try_collect_data: "data (snd (try_collect api m)) = data (snd (collect api m))"
  by (simp add: try_collect_def split: prod.split sum.split)

lemma try_collect_outcome:
  "fst (try_collect api m) = (case fst (collect api m) of Inl e \<Rightarrow> Error_Published
                                | Inr u \<Rightarrow> Stats_Published)"
  by (simp add: try_collect_def split: prod.split sum.split)

lemma generate_json_data:
  obtains (same) "fst (generate_json api m) \<noteq> Stats_Published"
      and "data (snd (generate_json api m)) = data m"
    | (ran) m0 where "data m0 = data m" and "generate_json api m = try_collect api m0"
proof (cases "token m = PNone")
  case False
  then have "generate_json api m = try_collect api m" by (simp add: generate_json_unfold)
  then show ?thesis using ran by blast
next
  case True
  show ?thesis
  proof (cases "fst (get_rubrik_token api m)")
    case (Inl e)
    with True show ?thesis using same by (simp add: generate_json_unfold)
  next
    case (Inr tok)
    show ?thesis
    proof (cases "tok = PNone")
      case True
      with Inr \<open>token m = PNone\<close> show ?thesis using same by (simp add: generate_json_unfold)
    next
      case False
      with Inr True have "generate_json api m =
          try_collect api (m\<lparr>session := Some Session, token := tok\<rparr>)"
        by (simp add: generate_json_unfold)
      then show ?thesis using ran [of "m\<lparr>session := Some Session, token := tok\<rparr>"] by simp
    qed
  qed
qed

lemma generate_json_keeps_data:
  assumes "keeps (\<lambda>m. g (data m)) (collect api)"
  shows "g (data (snd (generate_json api m))) = g (data m)"
proof (cases rule: generate_json_data [of api m])
  case same
  then show ?thesis by simp
next
  case (ran m0)
  from assms have "g (data (snd (collect api m0))) = g (data m0)" by (simp add: keeps_def)
  with ran show ?thesis by (simp add: try_collect_data)
qed

lemma generate_json_aborts:
  assumes "aborts (collect api)"
  shows "fst (generate_json api m) \<noteq> Stats_Published"
proof (cases rule: generate_json_data [of api m])
  case same
  then show ?thesis by simp
next
  case (ran m0)
  from assms obtain e m1 where "collect api m0 = (Inl e, m1)" unfolding aborts_def by blast
  with ran show ?thesis by (simp add: try_collect_outcome)
qed

lemma generate_json_aligned:
  assumes "aligned (data m)"
  shows "aligned (data (snd (generate_json api m)))"
proof (cases rule: generate_json_data [of api m])
  case same
  with assms show ?thesis by simp
next
  case (ran m0)
  with assms have "aligned (data m0)" by simp
  with preserves_aligned_collect [of api] have "aligned (data (snd (collect api m0)))"
    by (simp add: preserves_def)
  with ran show ?thesis by (simp add: try_collect_data)
qed

lemma main_loop_aligned: "aligned (data m) \<Longrightarrow> aligned (data (main_loop apis m))"
proof (induction apis arbitrary: m)
  case Nil
  then show ?case by simp
next
  case (Cons api apis)
  obtain oc m' where g: "generate_json api m = (oc, m')" by (cases "generate_json api m")
  with Cons.prems generate_json_aligned [of m api] have a: "aligned (data m')" by simp
  show ?case
  proof (cases oc)
    case (Uncaught e)
    with g a show ?thesis by simp
  next
    case Stats_Published
    with g a Cons.IH show ?thesis by simp
  next
    case Error_Published
    with g a Cons.IH show ?thesis by simp
  qed
qed

subsection \<open>Session and token\<close>

lemma collect_no_session: "session m = None \<Longrightarrow> collect api m = (Inl AttributeError, m)"
  by (simp add: collect_def seq_def bind_p_def q_summary_def fetch_def session_get_def)

lemma keeps_save_datapoints_login:
  "keeps (\<lambda>m. (session m, token m)) (save_datapoints ir iw tr tw g st)"
  by (simp add: keeps_def save_datapoints_eq append_and_trim_eq split: sum.split)

lemma collect_keeps_login: "keeps (\<lambda>m. (session m, token m)) (collect api)"
proof -
  have b: "scalar_blind (\<lambda>m. (session m, token m))" by (simp add: scalar_blind_def)
  show ?thesis
    unfolding collect_def
    by (intro keeps_seq keeps_bind keeps_scalar_queries [OF b]
        keeps_q_streams keeps_q_io_stats keeps_q_ingest)
      (simp add: split_def keeps_bind keeps_q_ingest keeps_save_datapoints_login)
qed

section \<open>The scalar assignments of a cycle\<close>

lemma fetch_eq: "session m = Some s \<Longrightarrow> fetch api q m = (fetched api q, m)"
  by (simp add: fetch_def session_get_def fetched_def bind_p_def raise_def ret_def
      split: http_result.split)

lemmas unfold_assigns = fetch_eq parsed_from_def gigabytes_def bind_p_def seq_def assign_def
  stmt_def ret_def bind_e_def

lemma q_summary_assigns:
  "session m = Some s \<Longrightarrow>
   q_summary api m =
     assign_all
       [(\<lambda>v d. d\<lparr>success_count := v\<rparr>,
           parsed_from api Summary (\<lambda>j. getitem_key j ''successCount'')),
        (\<lambda>v d. d\<lparr>failure_count := v\<rparr>,
           parsed_from api Summary (\<lambda>j. getitem_key j ''failureCount'')),
        (\<lambda>v d. d\<lparr>running_count := v\<rparr>,
           parsed_from api Summary (\<lambda>j. getitem_key j ''runningCount''))] m"
  by (cases "fetched api Summary") (auto simp: q_summary_def unfold_assigns split: sum.splits)

lemma q_system_storage_assigns:
  "session m = Some s \<Longrightarrow>
   q_system_storage api m =
     assign_all
       [(\<lambda>v d. d\<lparr>total_gb := v\<rparr>,
           parsed_from api SystemStorage (\<lambda>j. gigabytes (getitem_key j ''total''))),
        (\<lambda>v d. d\<lparr>available := v\<rparr>,
           parsed_from api SystemStorage (\<lambda>j. gigabytes (getitem_key j ''available'')))] m"
  by (cases "fetched api SystemStorage")
    (auto simp: q_system_storage_def unfold_assigns split: sum.splits)

lemma q_snapshot_storage_assigns:
  "session m = Some s \<Longrightarrow>
   q_snapshot_storage api m =
     assign_all
       [(\<lambda>v d. d\<lparr>used := v\<rparr>,
           parsed_from api SnapshotStorage (\<lambda>j. gigabytes
             (bind_e (getitem_key j ''value'') (\<lambda>v. bind_e (py_int v) (\<lambda>i. Inr (PInt i))))))] m"
  by (cases "fetched api SnapshotStorage")
    (auto simp: q_snapshot_storage_def unfold_assigns split: sum.splits)

lemma q_avg_growth_assigns:
  "session m = Some s \<Longrightarrow>
   q_avg_growth api m =
     assign_all
       [(\<lambda>v d. d\<lparr>avg_growth_per_day := v\<rparr>,
           parsed_from api AvgGrowth (\<lambda>j. gigabytes (getitem_key j ''bytes'')))] m"
  by (cases "fetched api AvgGrowth")
    (auto simp: q_avg_growth_def unfold_assigns split: sum.splits)

lemma q_ingest_per_day_assigns:
  "session m = Some s \<Longrightarrow>
   q_ingest_per_day api m =
     assign_all
       [(\<lambda>v d. d\<lparr>ingested_yesterday := v\<rparr>,
           parsed_from api IngestPerDay (\<lambda>j. gigabytes
             (bind_e (getitem_idx j (- 2)) (\<lambda>x. getitem_key x ''stat'')))),
        (\<lambda>v d. d\<lparr>ingested_today := v\<rparr>,
           parsed_from api IngestPerDay (\<lambda>j. gigabytes
             (bind_e (getitem_idx j (- 1)) (\<lambda>x. getitem_key x ''stat''))))] m"
  by (cases "fetched api IngestPerDay")
    (auto simp: q_ingest_per_day_def unfold_assigns split: sum.splits)

lemma q_node_assigns:
  "session m = Some s \<Longrightarrow>
   q_node api m =
     assign_all
       [(\<lambda>v d. d\<lparr>node_status := v\<rparr>, parsed_from api Node system_status_of)] m"
  by (cases "fetched api Node") (auto simp: q_node_def unfold_assigns split: sum.splits)

lemma keeps_assign_all:
  assumes "\<And>upd v m. f (m\<lparr>data := upd v (data m)\<rparr>) = f m"
  shows "keeps f (assign_all xs)"
proof (induction xs)
  case Nil
  show ?case by (simp add: keeps_ret)
next
  case (Cons x xs)
  obtain upd e where x: "x = (upd, e)" by (cases x)
  show ?case unfolding x assign_all.simps
    by (intro keeps_seq keeps_assign Cons.IH) (rule assms)
qed

lemma seq_session_cong:
  assumes p: "\<And>m. session m = Some s \<Longrightarrow> p m = p' m" and k: "keeps session p'"
    and q: "\<And>m. session m = Some s \<Longrightarrow> q m = q' m" and m: "session m = Some s"
  shows "seq p q m = seq p' q' m"
proof -
  obtain r m1 where r: "p' m = (r, m1)" by (cases "p' m")
  with k have "session m1 = session m" by (metis keeps_def snd_conv)
  with m have "q m1 = q' m1" by (simp add: q)
  with r p [OF m] show ?thesis by (simp add: seq_def bind_p_def split: sum.split)
qed

lemma seq_assoc: "seq (seq p q) r = seq p (seq q r)"
  by (auto simp: seq_def bind_p_def fun_eq_iff split: prod.splits sum.splits)

lemma seq_ret: "seq (ret ()) q = q"
  by (simp add: seq_def bind_p_def ret_def)

lemma collect_assigns:
  assumes "session m = Some s"
  shows "collect api m =
    seq (assign_all (zip scalar_updates (scalar_rhs api)))
      (bind_p (q_streams api) (\<lambda>strms.
       bind_p (q_io_stats api) (\<lambda>(iops_reads, iops_writes, throughput_reads, throughput_writes).
       bind_p (q_ingest api) (\<lambda>ingest_mb.
       save_datapoints iops_reads iops_writes throughput_reads throughput_writes
         ingest_mb strms)))) m"
proof -
  let ?rest = "bind_p (q_streams api) (\<lambda>strms.
       bind_p (q_io_stats api) (\<lambda>(iops_reads, iops_writes, throughput_reads, throughput_writes).
       bind_p (q_ingest api) (\<lambda>ingest_mb.
       save_datapoints iops_reads iops_writes throughput_reads throughput_writes
         ingest_mb strms)))"
  have "collect api m =
    seq (assign_all
       [(\<lambda>v d. d\<lparr>success_count := v\<rparr>,
           parsed_from api Summary (\<lambda>j. getitem_key j ''successCount'')),
        (\<lambda>v d. d\<lparr>failure_count := v\<rparr>,
           parsed_from api Summary (\<lambda>j. getitem_key j ''failureCount'')),
        (\<lambda>v d. d\<lparr>running_count := v\<rparr>,
           parsed_from api Summary (\<lambda>j. getitem_key j ''runningCount''))])
   (seq (assign_all
       [(\<lambda>v d. d\<lparr>total_gb := v\<rparr>,
           parsed_from api SystemStorage (\<lambda>j. gigabytes (getitem_key j ''total''))),
        (\<lambda>v d. d\<lparr>available := v\<rparr>,
           parsed_from api SystemStorage (\<lambda>j. gigabytes (getitem_key j ''available'')))])
   (seq (assign_all
       [(\<lambda>v d. d\<lparr>used := v\<rparr>,
           parsed_from api SnapshotStorage (\<lambda>j. gigabytes
             (bind_e (getitem_key j ''value'') (\<lambda>v. bind_e (py_int v) (\<lambda>i. Inr (PInt i))))))])
   (seq (assign_all
       [(\<lambda>v d. d\<lparr>avg_growth_per_day := v\<rparr>,
           parsed_from api AvgGrowth (\<lambda>j. gigabytes (getitem_key j ''bytes'')))])
   (seq (assign_all
       [(\<lambda>v d. d\<lparr>ingested_yesterday := v\<rparr>,
           parsed_from api IngestPerDay (\<lambda>j. gigabytes
             (bind_e (getitem_idx j (- 2)) (\<lambda>x. getitem_key x ''stat'')))),
        (\<lambda>v d. d\<lparr>ingested_today := v\<rparr>,
           parsed_from api IngestPerDay (\<lambda>j. gigabytes
             (bind_e (getitem_idx j (- 1)) (\<lambda>x. getitem_key x ''stat''))))])
   (seq (assign_all
       [(\<lambda>v d. d\<lparr>node_status := v\<rparr>, parsed_from api Node system_status_of)])
     ?rest))))) m"
    unfolding collect_def
    by (intro seq_session_cong [where s = s] q_summary_assigns q_system_storage_assigns
        q_snapshot_storage_assigns q_avg_growth_assigns q_ingest_per_day_assigns
        q_node_assigns keeps_assign_all refl)
      (simp_all add: assms)
  then show ?thesis
    by (simp add: scalar_updates_def scalar_rhs_def seq_assoc seq_ret)
qed

text \<open>Ten assignments with any right-hand sides: those before the first that raises are made.\<close>

lemma assign_all_ten:
  fixes m :: MonitorJSON and e1 e2 e3 e4 e5 e6 e7 e8 e9 e10 :: "exn + pyval"
  defines "r \<equiv> assign_all (zip scalar_updates [e1, e2, e3, e4, e5, e6, e7, e8, e9, e10]) m"
    and "n \<equiv> length (takeWhile (\<lambda>e. \<not> isl e) [e1, e2, e3, e4, e5, e6, e7, e8, e9, e10])"
  shows "take n [e1, e2, e3, e4, e5, e6, e7, e8, e9, e10]
           = map Inr (take n (scalars (data (snd r)))) \<and>
         drop n (scalars (data (snd r))) = drop n (scalars (data m)) \<and>
         isl (fst r) = (n < 10)"
  unfolding r_def n_def scalar_updates_def
  apply (cases e1; simp add: seq_def bind_p_def assign_def stmt_def scalars_def)
  apply (cases e2; simp add: seq_def bind_p_def assign_def stmt_def scalars_def)
  apply (cases e3; simp add: seq_def bind_p_def assign_def stmt_def scalars_def)
  apply (cases e4; simp add: seq_def bind_p_def assign_def stmt_def scalars_def)
  apply (cases e5; simp add: seq_def bind_p_def assign_def stmt_def scalars_def)
  apply (cases e6; simp add: seq_def bind_p_def assign_def stmt_def scalars_def)
  apply (cases e7; simp add: seq_def bind_p_def assign_def stmt_def scalars_def)
  apply (cases e8; simp add: seq_def bind_p_def assign_def stmt_def scalars_def)
  apply (cases e9; simp add: seq_def bind_p_def assign_def stmt_def scalars_def)
  apply (cases e10; simp add: seq_def bind_p_def assign_def stmt_def scalars_def ret_def)
  done

lemma keeps_save_datapoints_scalars:
  assumes "\<And>d a b c e. f (d\<lparr>iops := a, throughput := b, ingest := c, streams := e\<rparr>) = f d"
  shows "keeps (\<lambda>m. f (data m)) (save_datapoints ir iw tr tw g st)"
  by (simp add: keeps_def save_datapoints_eq append_and_trim_eq assms split: sum.split)

text \<open>What follows the six scalar queries assigns no scalar field.\<close>

lemma keeps_samples_part:
  assumes "\<And>d a b c e. f (d\<lparr>iops := a, throughput := b, ingest := c, streams := e\<rparr>) = f d"
  shows "keeps (\<lambda>m. f (data m))
    (bind_p (q_streams api) (\<lambda>strms.
     bind_p (q_io_stats api) (\<lambda>(iops_reads, iops_writes, throughput_reads, throughput_writes).
     bind_p (q_ingest api) (\<lambda>ingest_mb.
     save_datapoints iops_reads iops_writes throughput_reads throughput_writes
       ingest_mb strms))))"
  by (intro keeps_bind keeps_q_streams keeps_q_io_stats)
    (simp add: split_def keeps_bind keeps_q_ingest keeps_save_datapoints_scalars assms)

lemma collect_scalars:
  assumes "session m = Some s"
  shows "take (length (takeWhile (\<lambda>e. \<not> isl e) (scalar_rhs api))) (scalar_rhs api)
           = map Inr (take (length (takeWhile (\<lambda>e. \<not> isl e) (scalar_rhs api)))
                        (scalars (data (snd (collect api m))))) \<and>
         drop (length (takeWhile (\<lambda>e. \<not> isl e) (scalar_rhs api)))
              (scalars (data (snd (collect api m))))
           = drop (length (takeWhile (\<lambda>e. \<not> isl e) (scalar_rhs api))) (scalars (data m))"
proof -
  let ?rest = "bind_p (q_streams api) (\<lambda>strms.
       bind_p (q_io_stats api) (\<lambda>(iops_reads, iops_writes, throughput_reads, throughput_writes).
       bind_p (q_ingest api) (\<lambda>ingest_mb.
       save_datapoints iops_reads iops_writes throughput_reads throughput_writes
         ingest_mb strms)))"
  let ?A = "assign_all (zip scalar_updates (scalar_rhs api))"
  have k: "keeps (\<lambda>m. scalars (data m)) ?rest"
    by (rule keeps_samples_part) (simp add: scalars_def)
  obtain x m1 where a: "?A m = (x, m1)" by (cases "?A m")
  have "scalars (data (snd (collect api m))) = scalars (data m1)"
  proof (cases x)
    case (Inl e)
    with a show ?thesis by (simp add: collect_assigns [OF assms] seq_def bind_p_def)
  next
    case (Inr u)
    from k have "scalars (data (snd (?rest m1))) = scalars (data m1)" by (simp add: keeps_def)
    with Inr a show ?thesis by (simp add: collect_assigns [OF assms] seq_def bind_p_def)
  qed
  moreover have "m1 = snd (?A m)" using a by simp
  ultimately have eq: "scalars (data (snd (collect api m))) = scalars (data (snd (?A m)))"
    by simp
  show ?thesis
    unfolding eq unfolding scalar_rhs_def
    using assign_all_ten by blast
qed

lemma generate_json_tried:
  assumes "try_entered_with_session api m"
  obtains m0 s where "session m0 = Some s" and "data m0 = data m"
    and "generate_json api m = try_collect api m0"
proof (cases "token m = PNone")
  case False
  with assms obtain s where "session m = Some s" by (auto simp: try_entered_with_session_def)
  moreover from False have "generate_json api m = try_collect api m"
    by (simp add: generate_json_unfold)
  ultimately show ?thesis using that by blast
next
  case True
  with assms obtain tok where "fst (get_rubrik_token api m) = Inr tok" and "tok \<noteq> PNone"
    by (auto simp: try_entered_with_session_def login_gives_token_def split: sum.splits)
  with True have "generate_json api m =
      try_collect api (m\<lparr>session := Some Session, token := tok\<rparr>)"
    by (simp add: generate_json_unfold)
  then show ?thesis using that [of "m\<lparr>session := Some Session, token := tok\<rparr>" Session]
    by simp
qed

lemma generate_json_not_tried:
  assumes "\<not> try_entered_with_session api m"
  shows "data (snd (generate_json api m)) = data m \<and>
         fst (generate_json api m) \<noteq> Stats_Published"
proof (cases "token m = PNone")
  case False
  with assms have "session m = None" by (simp add: try_entered_with_session_def)
  then have "collect api m = (Inl AttributeError, m)" by (rule collect_no_session)
  with False show ?thesis by (simp add: generate_json_unfold try_collect_def)
next
  case True
  with assms show ?thesis
    by (auto simp: generate_json_unfold try_entered_with_session_def login_gives_token_def
        split: sum.splits)
qed

lemma generate_json_scalars:
  "take (assigned api m) (scalar_rhs api)
     = map Inr (take (assigned api m) (scalars (data (snd (generate_json api m))))) \<and>
   drop (assigned api m) (scalars (data (snd (generate_json api m))))
     = drop (assigned api m) (scalars (data m))"
proof (cases "try_entered_with_session api m")
  case False
  with generate_json_not_tried [OF False] show ?thesis by (simp add: assigned_def)
next
  case True
  then obtain m0 s where m0: "session m0 = Some s" "data m0 = data m"
    "generate_json api m = try_collect api m0"
    by (rule generate_json_tried)
  from collect_scalars [OF m0(1), of api] True m0(2,3) show ?thesis
    by (simp add: assigned_def try_collect_data)
qed

lemma assign_all_isl: "isl (fst (assign_all xs m)) = list_ex isl (map snd xs)"
proof (induction xs arbitrary: m)
  case Nil
  show ?case by (simp add: ret_def)
next
  case (Cons x xs)
  obtain upd e where x: "x = (upd, e)" by (cases x)
  show ?case
    by (cases e) (simp_all add: x seq_def bind_p_def assign_def stmt_def Cons.IH)
qed

lemma with_session_session: "session with_session = Some Session"
  by (simp add: with_session_def)

lemma query_raises_rhs:
  "query_raises api Summary = list_ex isl (take 3 (scalar_rhs api))"
  "query_raises api SystemStorage = list_ex isl (take 2 (drop 3 (scalar_rhs api)))"
  "query_raises api SnapshotStorage = list_ex isl (take 1 (drop 5 (scalar_rhs api)))"
  "query_raises api AvgGrowth = list_ex isl (take 1 (drop 6 (scalar_rhs api)))"
  "query_raises api IngestPerDay = list_ex isl (take 2 (drop 7 (scalar_rhs api)))"
  "query_raises api Node = list_ex isl (take 1 (drop 9 (scalar_rhs api)))"
  unfolding query_raises_def scalar_rhs_def
  by (simp_all only: endpoint.case assign_all_isl
      q_summary_assigns [OF with_session_session]
      q_system_storage_assigns [OF with_session_session]
      q_snapshot_storage_assigns [OF with_session_session]
      q_avg_growth_assigns [OF with_session_session]
      q_ingest_per_day_assigns [OF with_session_session]
      q_node_assigns [OF with_session_session]) simp_all

lemma fields_before_simps:
  "fields_before Summary = 0" "fields_before SystemStorage = 3"
  "fields_before SnapshotStorage = 5" "fields_before AvgGrowth = 6"
  "fields_before IngestPerDay = 7" "fields_before Node = 9"
  "fields_before Streams = 10" "fields_before IoStats = 10" "fields_before Ingest = 10"
  by (simp_all add: fields_before_def earlier_def query_order_def)

lemma query_raises_fields:
  assumes "0 < fields_of q"
  shows "query_raises api q =
    list_ex isl (take (fields_of q) (drop (fields_before q) (scalar_rhs api)))"
  using assms by (cases q) (simp_all only: query_raises_rhs fields_before_simps fields_of.simps less_irrefl drop_0)

lemma length_scalar_rhs: "length (scalar_rhs api) = 10"
  by (simp add: scalar_rhs_def)

lemma takeWhile_stops:
  assumes "list_ex P (take k (drop j xs))"
  shows "length (takeWhile (\<lambda>x. \<not> P x) xs) < j + k"
proof -
  from assms obtain x where x: "x \<in> set (take k (drop j xs))" and P: "P x"
    by (auto simp: list_ex_iff)
  from x obtain i where i: "i < length (take k (drop j xs))" and xi: "take k (drop j xs) ! i = x"
    by (auto simp: in_set_conv_nth)
  from i have ik: "i < k" and ij: "j + i < length xs" by auto
  with xi have nth: "xs ! (j + i) = x" by simp
  have "\<not> j + i < length (takeWhile (\<lambda>x. \<not> P x) xs)"
  proof
    assume l: "j + i < length (takeWhile (\<lambda>x. \<not> P x) xs)"
    then have "takeWhile (\<lambda>x. \<not> P x) xs ! (j + i) = xs ! (j + i)" by (rule takeWhile_nth)
    moreover from l have "takeWhile (\<lambda>x. \<not> P x) xs ! (j + i) \<in> set (takeWhile (\<lambda>x. \<not> P x) xs)"
      by simp
    ultimately have "\<not> P (xs ! (j + i))" by (metis set_takeWhileD)
    with nth P show False by simp
  qed
  with ik show ?thesis by simp
qed

lemma takeWhile_reaches:
  assumes "\<not> list_ex P (take j xs)" and "j \<le> length xs"
  shows "j \<le> length (takeWhile (\<lambda>x. \<not> P x) xs)"
proof (rule length_takeWhile_less_P_nth [OF _ assms(2)])
  fix i assume "i < j"
  with assms(2) have "xs ! i \<in> set (take j xs)"
    by (metis in_set_conv_nth length_take min.absorb2 nth_take)
  with assms(1) show "\<not> P (xs ! i)" by (auto simp: list_ex_iff)
qed

lemma raising_query_stops:
  assumes "query_raises api q" and "0 < fields_of q"
  shows "assigned api m < fields_before q + fields_of q"
proof -
  from assms have "list_ex isl (take (fields_of q) (drop (fields_before q) (scalar_rhs api)))"
    by (simp add: query_raises_fields)
  then have "length (takeWhile (\<lambda>e. \<not> isl e) (scalar_rhs api)) < fields_before q + fields_of q"
    by (rule takeWhile_stops)
  moreover from assms(2) have "0 < fields_before q + fields_of q" by simp
  ultimately show ?thesis by (simp add: assigned_def)
qed

lemma earlier_simps:
  "earlier Summary = []" "earlier SystemStorage = [Summary]"
  "earlier SnapshotStorage = [Summary, SystemStorage]"
  "earlier AvgGrowth = [Summary, SystemStorage, SnapshotStorage]"
  "earlier IngestPerDay = [Summary, SystemStorage, SnapshotStorage, AvgGrowth]"
  "earlier Node = [Summary, SystemStorage, SnapshotStorage, AvgGrowth, IngestPerDay]"
  "earlier Streams = [Summary, SystemStorage, SnapshotStorage, AvgGrowth, IngestPerDay, Node]"
  "earlier IoStats =
     [Summary, SystemStorage, SnapshotStorage, AvgGrowth, IngestPerDay, Node, Streams]"
  "earlier Ingest =
     [Summary, SystemStorage, SnapshotStorage, AvgGrowth, IngestPerDay, Node, Streams, IoStats]"
  by (simp_all add: earlier_def query_order_def)

lemma earlier_queries_written:
  assumes "list_all (\<lambda>q'. \<not> query_raises api q') (earlier q)"
  shows "\<not> list_ex isl (take (fields_before q) (scalar_rhs api))"
  using assms
  by (cases q)
    (simp_all add: earlier_simps fields_before_simps query_raises_rhs, simp_all add: scalar_rhs_def)

lemma completed_queries_assigned:
  assumes "try_entered_with_session api m"
    and "list_all (\<lambda>q'. \<not> query_raises api q') (earlier q)"
  shows "fields_before q \<le> assigned api m"
proof -
  have "fields_before q \<le> 10" by (cases q) (simp_all add: fields_before_simps)
  then have "fields_before q \<le> length (scalar_rhs api)" by (simp add: length_scalar_rhs)
  with earlier_queries_written [OF assms(2)]
  have "fields_before q \<le> length (takeWhile (\<lambda>e. \<not> isl e) (scalar_rhs api))"
    by (rule takeWhile_reaches)
  with assms(1) show ?thesis by (simp add: assigned_def)
qed

section \<open>Evaluating the model on concrete answers\<close>

lemmas float_defs = int_quot_def bind_e_def MB_def GB_def int_truediv_def nearest_double_def
  floor_log2_quot_def bit_length.simps round_half_even_def int_of_float_def Let_def

lemmas str_defs = int_of_str_def strip_def py_isspace_def py_isdigit_def unsigned_value_def
  int_max_str_digits_def

lemmas prog_defs = ret_def raise_def lift_def bind_p_def seq_def modify_def stmt_def assign_def
  session_get_def fetch_def loads_def

lemmas query_defs = q_summary_def q_system_storage_def q_snapshot_storage_def q_avg_growth_def
  q_ingest_per_day_def q_node_def q_streams_def q_io_stats_def q_ingest_def
  node_status_at_def system_status_of_def first_stat_def py_index_def

lemmas cycle_defs = collect_def try_collect_def generate_json_def get_rubrik_token_def
  save_datapoints_def append_and_trim_def trim_def del_first_def MAX_DATAPOINTS_def
  json_dumps_def

lemmas example_defs = ok_def stat_series_def node_report_def io_report_def good_answer_def
  good_login_def good_api_def storage_down_api_def unreachable_api_def garbled_login_api_def
  huge_rate_api_def summary_down_api_def partial_storage_api_def empty_ingest_api_def
  MonitorJSON_init_def RubrikData_init_def

text \<open>An integer of at most eighteen digits is within the limit of \<^verbatim>\<open>json.dumps\<close>.\<close>

lemma dumpable_small: "\<bar>n\<bar> < 10 ^ 18 \<Longrightarrow> dumpable (PInt n)"
proof -
  assume "\<bar>n\<bar> < 10 ^ 18"
  also have "(10::int) ^ 18 \<le> 10 ^ int_max_str_digits"
    by (rule power_increasing) (simp_all add: int_max_str_digits_def)
  finally show ?thesis by (simp add: dumpable.simps(1) del: power_numeral)
qed

lemmas run_defs = float_defs str_defs prog_defs query_defs cycle_defs example_defs upt_rec
  dumpable_small

lemmas rhs_defs = assigned_def try_entered_with_session_def try_entered_def
  login_gives_token_def scalar_rhs_def parsed_from_def fetched_def gigabytes_def scalars_def

lemma good_cycle:
  "generate_json good_api MonitorJSON_init =
     (Stats_Published,
      \<lparr>json = Stats
         \<lparr>iops = [PInt 150], throughput = [PInt 2], ingest = [PInt 3], streams = [PInt 4],
          success_count = PInt 12, failure_count = PInt 1, running_count = PInt 2,
          total_gb = PInt 5, used = PInt 1, available = PInt 3, avg_growth_per_day = PInt 2,
          ingested_yesterday = PInt 8, ingested_today = PInt 9, node_status = PStr ''OK''\<rparr>,
       session = Some Session,
       data =
         \<lparr>iops = [PInt 150], throughput = [PInt 2], ingest = [PInt 3], streams = [PInt 4],
          success_count = PInt 12, failure_count = PInt 1, running_count = PInt 2,
          total_gb = PInt 5, used = PInt 1, available = PInt 3, avg_growth_per_day = PInt 2,
          ingested_yesterday = PInt 8, ingested_today = PInt 9, node_status = PStr ''OK''\<rparr>,
       token = PStr ''8de9d44f''\<rparr>)"
  by (simp add: run_defs)

lemma storage_down_cycle:
  "generate_json storage_down_api MonitorJSON_init =
     (Error_Published,
      \<lparr>json = Error ''Error getting data from Rubrik'', session = None,
       data = RubrikData_init
         \<lparr>success_count := PInt 12, failure_count := PInt 1, running_count := PInt 2\<rparr>,
       token = PNone\<rparr>)"
  by (simp add: run_defs)

lemma unreachable_cycle:
  "generate_json unreachable_api MonitorJSON_init =
     (Error_Published,
      MonitorJSON_init
        \<lparr>json := Error ''Error getting login token from Rubrik'', session := Some Session\<rparr>)"
  by (simp add: run_defs)

lemma good_io_stats:
  "first_stat (io_report ir iw tr tw) ''iops'' ''readsPerSecond'' = Inr (PInt ir)"
  "first_stat (io_report ir iw tr tw) ''iops'' ''writesPerSecond'' = Inr (PInt iw)"
  "first_stat (io_report ir iw tr tw) ''ioThroughput'' ''readBytePerSecond'' = Inr (PInt tr)"
  "first_stat (io_report ir iw tr tw) ''ioThroughput'' ''writeBytePerSecond'' = Inr (PInt tw)"
  by (simp_all add: io_report_def first_stat_def stat_series_def bind_e_def py_index_def)

lemma good_cycle_run:
  "generate_json good_api MonitorJSON_init
     = (Stats_Published, snd (generate_json good_api MonitorJSON_init))"
  by (simp add: good_cycle)

lemma init_aligned: "aligned (data MonitorJSON_init)"
  by (simp add: aligned_def MonitorJSON_init_def RubrikData_init_def)

lemma storage_down_raises: "query_raises storage_down_api SystemStorage"
  by (simp add: query_raises_def with_session_def run_defs)

lemma partial_storage_cycle:
  "generate_json partial_storage_api MonitorJSON_init =
     (Error_Published,
      \<lparr>json = Error ''Error getting data from Rubrik'', session = None,
       data = RubrikData_init
         \<lparr>success_count := PInt 12, failure_count := PInt 1, running_count := PInt 2,
          total_gb := PInt 7\<rparr>,
       token = PNone\<rparr>)"
  by (simp add: run_defs)

lemma partial_storage_raises: "query_raises partial_storage_api SystemStorage"
  by (simp add: query_raises_def with_session_def run_defs)

lemma partial_storage_assigned: "assigned partial_storage_api MonitorJSON_init = 4"
  by (simp add: rhs_defs run_defs)

lemma partial_storage_rhs:
  "take 4 (scalar_rhs partial_storage_api) = [Inr (PInt 12), Inr (PInt 1), Inr (PInt 2), Inr (PInt 7)]"
  by (simp add: rhs_defs run_defs)

lemma partial_storage_summary_ok: "\<not> query_raises partial_storage_api Summary"
  by (simp add: query_raises_def with_session_def run_defs)

lemma partial_storage_entered: "try_entered_with_session partial_storage_api MonitorJSON_init"
  by (simp add: rhs_defs run_defs)

lemma storage_down_entered: "try_entered storage_down_api MonitorJSON_init"
  by (simp add: rhs_defs run_defs)

lemma unreachable_not_entered: "\<not> try_entered unreachable_api MonitorJSON_init"
  by (simp add: rhs_defs run_defs)

lemma empty_ingest_raises: "query_raises empty_ingest_api Ingest"
  by (simp add: query_raises_def with_session_def run_defs)

lemma summary_down_raises: "query_raises summary_down_api Summary"
  by (simp add: query_raises_def with_session_def run_defs)

section \<open>Failing cycles on the examples\<close>

lemma summary_down_cycle:
  "generate_json summary_down_api (snd (generate_json good_api MonitorJSON_init)) =
     (Error_Published,
      (snd (generate_json good_api MonitorJSON_init))
        \<lparr>json := Error ''Error getting data from Rubrik'', token := PNone, session := None\<rparr>)"
  by (simp add: good_cycle) (simp add: run_defs)

lemma summary_down_entered:
  "try_entered summary_down_api (snd (generate_json good_api MonitorJSON_init))"
  by (simp add: good_cycle try_entered_def)

lemma try_collect_login:
  assumes "try_collect api m0 = (oc, m1)"
  shows "(oc = Stats_Published \<and> session m1 = session m0 \<and> token m1 = token m0 \<and>
          session m0 \<noteq> None) \<or>
         (oc = Error_Published \<and> session m1 = None \<and> token m1 = PNone)"
proof -
  obtain r m2 where c: "collect api m0 = (r, m2)" by (cases "collect api m0")
  show ?thesis
  proof (cases r)
    case (Inl e)
    with c assms show ?thesis by (auto simp: try_collect_def)
  next
    case (Inr u)
    from collect_keeps_login [of api] have "(session (snd (collect api m0)), token (snd (collect api m0)))
        = (session m0, token m0)"
      unfolding keeps_def by blast
    with c have k: "session m2 = session m0" "token m2 = token m0" by simp_all
    have "session m0 \<noteq> None"
      using c Inr collect_no_session [of m0 api] by auto
    with c Inr assms k show ?thesis by (auto simp: try_collect_def)
  qed
qed

lemma queries_never_propagate:
  "token m \<noteq> PNone \<Longrightarrow> fst (generate_json api m) \<noteq> Uncaught e"
  by (simp add: generate_json_unfold try_collect_outcome split: sum.split)

section \<open>The node loop\<close>

lemma node_loop_fold:
  assumes "\<And>x. x \<in> set xs \<Longrightarrow> node_status_at j x = Inr (f x)"
  shows "node_loop j xs acc = Inr (fold (\<lambda>x a. if f x \<noteq> PStr ''OK'' then f x else a) xs acc)"
  using assms by (induction xs arbitrary: acc) simp_all

lemma fold_last_non_ok:
  "fold (\<lambda>s a. if s \<noteq> v then s else a) sts acc =
     (if list_all (\<lambda>s. s = v) sts then acc else last (filter (\<lambda>s. s \<noteq> v) sts))"
  by (induction sts arbitrary: acc) (auto simp: list_all_iff filter_empty_conv)

lemma system_status_of_nodes:
  assumes total: "getitem_key j ''total'' = Inr (PInt (int (length nodes)))"
    and dat: "getitem_key j ''data'' = Inr (PList nodes)"
    and sts: "map (\<lambda>n. getitem_key n ''status'') nodes = map Inr sts"
  shows "system_status_of j =
     Inr (if list_all (\<lambda>s. s = PStr ''OK'') sts then PStr ''OK''
          else last (filter (\<lambda>s. s \<noteq> PStr ''OK'') sts))"
proof -
  have len: "length sts = length nodes" using sts by (metis length_map)
  have at: "node_status_at j x = Inr (sts ! x)" if "x \<in> set [0..<length nodes]" for x
  proof -
    from that have x: "x < length nodes" by simp
    from sts have "map (\<lambda>n. getitem_key n ''status'') nodes ! x = map Inr sts ! x" by simp
    with x len have "getitem_key (nodes ! x) ''status'' = Inr (sts ! x)" by simp
    with x show ?thesis by (simp add: node_status_at_def bind_e_def dat py_index_def)
  qed
  have "node_loop j [0..<length nodes] (PStr ''OK'') =
      Inr (fold (\<lambda>x a. if sts ! x \<noteq> PStr ''OK'' then sts ! x else a) [0..<length nodes]
             (PStr ''OK''))"
    using at by (rule node_loop_fold)
  also have "fold (\<lambda>x a. if sts ! x \<noteq> PStr ''OK'' then sts ! x else a) [0..<length nodes]
             (PStr ''OK'') =
      fold (\<lambda>s a. if s \<noteq> PStr ''OK'' then s else a) (map (nth sts) [0..<length sts])
             (PStr ''OK'')"
    by (simp add: fold_map comp_def len)
  also have "map (nth sts) [0..<length sts] = sts" by (rule map_nth)
  also have "fold (\<lambda>s a. if s \<noteq> PStr ''OK'' then s else a) sts (PStr ''OK'') =
      (if list_all (\<lambda>s. s = PStr ''OK'') sts then PStr ''OK''
       else last (filter (\<lambda>s. s \<noteq> PStr ''OK'') sts))"
    by (rule fold_last_non_ok)
  finally have nl: "node_loop j [0..<length nodes] (PStr ''OK'') =
      Inr (if list_all (\<lambda>s. s = PStr ''OK'') sts then PStr ''OK''
           else last (filter (\<lambda>s. s \<noteq> PStr ''OK'') sts))" .
  show ?thesis
    by (simp only: system_status_of_def bind_e_def total sum.case py_range.simps nat_int nl)
qed

section \<open>Runs of appends\<close>

lemma last_n_step:
  assumes "length xs = k" and "k \<le> C"
  shows "drop (length ((if C \<le> k then tl (xs @ [v]) else xs @ [v]) @ vs) - C)
            ((if C \<le> k then tl (xs @ [v]) else xs @ [v]) @ vs) =
         drop (length (xs @ v # vs) - C) (xs @ v # vs)"
proof (cases "C \<le> k")
  case False
  then show ?thesis by simp
next
  case True
  with assms have k: "length xs = C" by simp
  have e: "length (xs @ v # vs) - C = length vs + 1" using k by simp
  have "drop (length (xs @ v # vs) - C) (xs @ v # vs) = drop (length vs + 1) (xs @ v # vs)"
    by (simp only: e)
  also have "\<dots> = drop (length vs) (drop 1 (xs @ v # vs))" by (simp only: drop_drop)
  also have "drop 1 (xs @ v # vs) = tl (xs @ [v]) @ vs" by (cases xs) simp_all
  finally have r: "drop (length (xs @ v # vs) - C) (xs @ v # vs)
      = drop (length vs) (tl (xs @ [v]) @ vs)" .
  have l: "length (tl (xs @ [v]) @ vs) - C = length vs" using k by simp
  show ?thesis by (simp only: True if_True l r)
qed

lemma append_all_general:
  assumes "length (iops (data m)) \<le> C"
    and "length (throughput (data m)) = length (iops (data m))"
    and "length (ingest (data m)) = length (iops (data m))"
    and "length (streams (data m)) = length (iops (data m))"
  shows "append_all C smps m =
    (Inr (),
     m\<lparr>data := (data m)
       \<lparr>iops := drop (length (iops (data m) @ map fst smps) - C)
                  (iops (data m) @ map fst smps),
        throughput := drop (length (throughput (data m) @ map (\<lambda>x. fst (snd x)) smps) - C)
                  (throughput (data m) @ map (\<lambda>x. fst (snd x)) smps),
        ingest := drop (length (ingest (data m) @ map (\<lambda>x. fst (snd (snd x))) smps) - C)
                  (ingest (data m) @ map (\<lambda>x. fst (snd (snd x))) smps),
        streams := drop (length (streams (data m) @ map (\<lambda>x. snd (snd (snd x))) smps) - C)
                  (streams (data m) @ map (\<lambda>x. snd (snd (snd x))) smps)\<rparr>\<rparr>)"
  using assms
proof (induction smps arbitrary: m)
  case Nil
  then show ?case by (simp add: ret_def)
next
  case (Cons smp smps)
  obtain i t g s where smp: "smp = (i, t, g, s)" by (cases smp)
  define k where "k = length (iops (data m))"
  define m1 where "m1 = snd (append_and_trim C (i, t, g, s) m)"
  have step: "append_and_trim C (i, t, g, s) m = (Inr (), m1)"
    by (simp add: m1_def append_and_trim_eq)
  have m1: "m1 = m\<lparr>data := (data m)
         \<lparr>iops := (if C \<le> k then tl (iops (data m) @ [i]) else iops (data m) @ [i]),
          throughput := (if C \<le> k then tl (throughput (data m) @ [t])
                    else throughput (data m) @ [t]),
          ingest := (if C \<le> k then tl (ingest (data m) @ [g]) else ingest (data m) @ [g]),
          streams := (if C \<le> k then tl (streams (data m) @ [s])
                    else streams (data m) @ [s])\<rparr>\<rparr>"
    by (simp add: m1_def append_and_trim_eq k_def)
  have len: "length (iops (data m)) = k" "length (throughput (data m)) = k"
    "length (ingest (data m)) = k" "length (streams (data m)) = k" "k \<le> C"
    using Cons.prems by (simp_all add: k_def)
  have pre: "length (iops (data m1)) \<le> C"
    "length (throughput (data m1)) = length (iops (data m1))"
    "length (ingest (data m1)) = length (iops (data m1))"
    "length (streams (data m1)) = length (iops (data m1))"
    using len by (auto simp: m1)
  have run: "append_all C (smp # smps) m = append_all C smps m1"
    by (simp add: smp seq_def bind_p_def step)
  note ih = Cons.IH [OF pre]
  have i: "drop (length (iops (data m1) @ map fst smps) - C) (iops (data m1) @ map fst smps)
      = drop (length (iops (data m) @ map fst (smp # smps)) - C)
          (iops (data m) @ map fst (smp # smps))"
    using last_n_step [OF len(1) len(5), of i "map fst smps"] by (simp add: m1 smp)
  have t: "drop (length (throughput (data m1) @ map (\<lambda>x. fst (snd x)) smps) - C)
        (throughput (data m1) @ map (\<lambda>x. fst (snd x)) smps)
      = drop (length (throughput (data m) @ map (\<lambda>x. fst (snd x)) (smp # smps)) - C)
          (throughput (data m) @ map (\<lambda>x. fst (snd x)) (smp # smps))"
    using last_n_step [OF len(2) len(5), of t "map (\<lambda>x. fst (snd x)) smps"] by (simp add: m1 smp)
  have g: "drop (length (ingest (data m1) @ map (\<lambda>x. fst (snd (snd x))) smps) - C)
        (ingest (data m1) @ map (\<lambda>x. fst (snd (snd x))) smps)
      = drop (length (ingest (data m) @ map (\<lambda>x. fst (snd (snd x))) (smp # smps)) - C)
          (ingest (data m) @ map (\<lambda>x. fst (snd (snd x))) (smp # smps))"
    using last_n_step [OF len(3) len(5), of g "map (\<lambda>x. fst (snd (snd x))) smps"]
    by (simp add: m1 smp)
  have s: "drop (length (streams (data m1) @ map (\<lambda>x. snd (snd (snd x))) smps) - C)
        (streams (data m1) @ map (\<lambda>x. snd (snd (snd x))) smps)
      = drop (length (streams (data m) @ map (\<lambda>x. snd (snd (snd x))) (smp # smps)) - C)
          (streams (data m) @ map (\<lambda>x. snd (snd (snd x))) (smp # smps))"
    using last_n_step [OF len(4) len(5), of s "map (\<lambda>x. snd (snd (snd x))) smps"]
    by (simp add: m1 smp)
  have "append_all C (smp # smps) m = (Inr (),
     m1\<lparr>data := (data m1)
       \<lparr>iops := drop (length (iops (data m) @ map fst (smp # smps)) - C)
          (iops (data m) @ map fst (smp # smps)),
        throughput := drop (length (throughput (data m) @ map (\<lambda>x. fst (snd x)) (smp # smps)) - C)
          (throughput (data m) @ map (\<lambda>x. fst (snd x)) (smp # smps)),
        ingest := drop (length (ingest (data m) @ map (\<lambda>x. fst (snd (snd x))) (smp # smps)) - C)
          (ingest (data m) @ map (\<lambda>x. fst (snd (snd x))) (smp # smps)),
        streams := drop (length (streams (data m) @ map (\<lambda>x. snd (snd (snd x))) (smp # smps)) - C)
          (streams (data m) @ map (\<lambda>x. snd (snd (snd x))) (smp # smps))\<rparr>\<rparr>)"
    unfolding run ih i t g s ..
  then show ?case by (simp add: m1)
qed

section \<open>What a successful cycle publishes\<close>

lemma bind_p_InrE:
  assumes "bind_p p g m = (Inr y, m')"
  obtains x m1 where "p m = (Inr x, m1)" and "g x m1 = (Inr y, m')"
proof -
  obtain r m1 where p: "p m = (r, m1)" by (cases "p m")
  show ?thesis
  proof (cases r)
    case (Inl e)
    with p assms show ?thesis by (simp add: bind_p_def)
  next
    case (Inr x)
    with p assms that show ?thesis by (simp add: bind_p_def)
  qed
qed

lemma seq_InrE:
  assumes "seq p q m = (Inr y, m')"
  obtains m1 where "p m = (Inr (), m1)" and "q m1 = (Inr y, m')"
  using assms unfolding seq_def by (elim bind_p_InrE) simp

lemma keepsD: "keeps f p \<Longrightarrow> p m = (r, m1) \<Longrightarrow> f m1 = f m"
  by (metis keeps_def snd_conv)

lemma q_io_stats_result:
  assumes run: "q_io_stats api m = (Inr (a, b, c, d), m1)"
    and r: "answer api IoStats = Responds r" and j: "loads_text r = Some j"
    and ir: "first_stat j ''iops'' ''readsPerSecond'' = Inr ir"
    and iw: "first_stat j ''iops'' ''writesPerSecond'' = Inr iw"
    and tr: "first_stat j ''ioThroughput'' ''readBytePerSecond'' = Inr (PInt tr)"
    and tw: "first_stat j ''ioThroughput'' ''writeBytePerSecond'' = Inr (PInt tw)"
    and bounds: "0 \<le> tr" "tr < 2 ^ 53" "0 \<le> tw" "tw < 2 ^ 53"
  shows "a = ir \<and> b = iw \<and> c = tr div 2 ^ 20 \<and> d = tw div 2 ^ 20"
proof -
  have "int_quot (PInt tr) MB = Inr (tr div 2 ^ 20)" "int_quot (PInt tw) MB = Inr (tw div 2 ^ 20)"
    using bounds by (simp_all add: mb_exact)
  with run show ?thesis
    by (auto simp: q_io_stats_def fetch_def session_get_def bind_p_def lift_def raise_def
        ret_def loads_def bind_e_def r j ir iw tr tw split: option.splits if_splits)
qed

lemma collect_success:
  assumes "collect api m = (Inr u, m')"
  obtains strms a b c d g m9 where "q_io_stats api m9 = (Inr (a, b, c, d), m9)"
    and "q_ingest api m9 = (Inr g, m9)"
    and "series (data m9) = series (data m)"
    and "save_datapoints a b c d g strms m9 = (Inr (), m')"
proof -
  note ks = keeps_scalar_queries [OF scalar_blind_series]
  from assms obtain m1 m2 m3 m4 m5 m6 m7 m8 m9 strms a b c d g where
    q: "q_summary api m = (Inr (), m1)" "q_system_storage api m1 = (Inr (), m2)"
      "q_snapshot_storage api m2 = (Inr (), m3)" "q_avg_growth api m3 = (Inr (), m4)"
      "q_ingest_per_day api m4 = (Inr (), m5)" "q_node api m5 = (Inr (), m6)"
      "q_streams api m6 = (Inr strms, m7)" "q_io_stats api m7 = (Inr (a, b, c, d), m8)"
      "q_ingest api m8 = (Inr g, m9)"
    and s: "save_datapoints a b c d g strms m9 = (Inr u, m')"
    unfolding collect_def
    by (elim seq_InrE bind_p_InrE) (auto simp: split_def elim!: bind_p_InrE)
  have "series (data m9) = series (data m)"
    using keepsD [OF ks(1) q(1)] keepsD [OF ks(2) q(2)] keepsD [OF ks(3) q(3)]
      keepsD [OF ks(4) q(4)] keepsD [OF ks(5) q(5)] keepsD [OF ks(6) q(6)]
      keepsD [OF keeps_q_streams q(7), of "\<lambda>m. series (data m)"]
      keepsD [OF keeps_q_io_stats q(8), of "\<lambda>m. series (data m)"]
      keepsD [OF keeps_q_ingest q(9), of "\<lambda>m. series (data m)"]
    by simp
  moreover have "m8 = m7" "m9 = m8"
    using keepsD [OF keeps_q_io_stats q(8), of "\<lambda>m. m"]
      keepsD [OF keeps_q_ingest q(9), of "\<lambda>m. m"] by simp_all
  ultimately show ?thesis using q(8) q(9) s by (auto intro: that)
qed

lemma yields_bind_right:
  assumes "\<And>x. yields P (g x)"
  shows "yields P (bind_p p g)"
  unfolding yields_def
proof (intro allI impI)
  fix m y m'
  assume "bind_p p g m = (Inr y, m')"
  then obtain x m1 where "g x m1 = (Inr y, m')" by (rule bind_p_InrE)
  with assms show "P m'" unfolding yields_def by blast
qed

lemma yields_bind_left:
  assumes "yields P p" and "\<And>x. preserves P (g x)"
  shows "yields P (bind_p p g)"
  unfolding yields_def
proof (intro allI impI)
  fix m y m'
  assume "bind_p p g m = (Inr y, m')"
  then obtain x m1 where p: "p m = (Inr x, m1)" and g: "g x m1 = (Inr y, m')"
    by (rule bind_p_InrE)
  from assms(1) p have "P m1" unfolding yields_def by blast
  with assms(2) [of x] have "P (snd (g x m1))" by (simp add: preserves_def)
  with g show "P m'" by simp
qed

lemma yields_seq_right: "yields P q \<Longrightarrow> yields P (seq p q)"
  by (simp add: seq_def yields_bind_right)

lemma yields_seq_left: "yields P p \<Longrightarrow> preserves P q \<Longrightarrow> yields P (seq p q)"
  by (simp add: seq_def yields_bind_left)

lemmas unfold_query = fetch_def session_get_def bind_p_def raise_def ret_def seq_def
  assign_def stmt_def lift_def loads_def bind_e_def

lemma yields_q_system_storage:
  assumes "answer api SystemStorage = Responds r" and "loads_text r = Some j"
    and "getitem_key j ''total'' = Inr (PInt a)" and "0 \<le> a" and "a < 2 ^ 24 * 10 ^ 9"
    and "getitem_key j ''available'' = Inr (PInt b)" and "0 \<le> b" and "b < 2 ^ 24 * 10 ^ 9"
  shows "yields (\<lambda>m. total_gb (data m) = PInt (a div 10 ^ 9) \<and>
                      available (data m) = PInt (b div 10 ^ 9)) (q_system_storage api)"
  using assms gb_exact [of a] gb_exact [of b]
  by (auto simp: yields_def q_system_storage_def unfold_query
      split: option.splits if_splits)

lemma yields_q_snapshot_storage:
  assumes "answer api SnapshotStorage = Responds r" and "loads_text r = Some j"
    and "getitem_key j ''value'' = Inr v" and "py_int v = Inr a"
    and "0 \<le> a" and "a < 2 ^ 24 * 10 ^ 9"
  shows "yields (\<lambda>m. used (data m) = PInt (a div 10 ^ 9)) (q_snapshot_storage api)"
  using assms gb_exact [of a]
  by (auto simp: yields_def q_snapshot_storage_def unfold_query
      split: option.splits if_splits)

lemma yields_q_avg_growth:
  assumes "answer api AvgGrowth = Responds r" and "loads_text r = Some j"
    and "getitem_key j ''bytes'' = Inr (PInt a)" and "0 \<le> a" and "a < 2 ^ 24 * 10 ^ 9"
  shows "yields (\<lambda>m. avg_growth_per_day (data m) = PInt (a div 10 ^ 9)) (q_avg_growth api)"
  using assms gb_exact [of a]
  by (auto simp: yields_def q_avg_growth_def unfold_query
      split: option.splits if_splits)

lemma yields_q_ingest_per_day:
  assumes "answer api IngestPerDay = Responds r" and "loads_text r = Some j"
    and "getitem_idx j (- 2) = Inr y" and "getitem_key y ''stat'' = Inr (PInt a)"
    and "0 \<le> a" and "a < 2 ^ 24 * 10 ^ 9"
    and "getitem_idx j (- 1) = Inr t" and "getitem_key t ''stat'' = Inr (PInt b)"
    and "0 \<le> b" and "b < 2 ^ 24 * 10 ^ 9"
  shows "yields (\<lambda>m. ingested_yesterday (data m) = PInt (a div 10 ^ 9) \<and>
                      ingested_today (data m) = PInt (b div 10 ^ 9)) (q_ingest_per_day api)"
  using assms gb_exact [of a] gb_exact [of b]
  by (auto simp: yields_def q_ingest_per_day_def unfold_query
      split: option.splits if_splits)

lemma generate_json_yields:
  assumes "yields (\<lambda>m. Q (data m)) (collect api)"
    and "generate_json api m = (Stats_Published, m')"
  shows "Q (data m')"
proof -
  from assms(2) have "fst (generate_json api m) = Stats_Published" by simp
  then obtain m0 where "generate_json api m = try_collect api m0"
    by (cases rule: generate_json_data [of api m]) simp_all
  with assms(2) have "try_collect api m0 = (Stats_Published, m')" by simp
  then obtain u where "collect api m0 = (Inr u, m')"
    by (auto simp: try_collect_def split: prod.splits sum.splits)
  with assms(1) show ?thesis unfolding yields_def by blast
qed

lemma published_storage:
  assumes "generate_json api m = (Stats_Published, m')"
    and "answer api SystemStorage = Responds r" and "loads_text r = Some j"
    and "getitem_key j ''total'' = Inr (PInt a)" and "0 \<le> a" and "a < 2 ^ 24 * 10 ^ 9"
    and "getitem_key j ''available'' = Inr (PInt b)" and "0 \<le> b" and "b < 2 ^ 24 * 10 ^ 9"
  shows "total_gb (data m') = PInt (a div 10 ^ 9) \<and> available (data m') = PInt (b div 10 ^ 9)"
proof -
  let ?Q = "\<lambda>d. total_gb d = PInt (a div 10 ^ 9) \<and> available d = PInt (b div 10 ^ 9)"
  have k: "keeps (\<lambda>m. (total_gb (data m), available (data m))) p
      \<Longrightarrow> preserves (\<lambda>m. ?Q (data m)) p" for p :: "'a prog"
    by (simp add: keeps_def preserves_def)
  have "yields (\<lambda>m. ?Q (data m)) (collect api)"
    unfolding collect_def
    apply (rule yields_seq_right)
    apply (rule yields_seq_left)
     apply (rule yields_q_system_storage [OF assms(2-9)])
    apply (rule k)
    apply (intro keeps_seq keeps_q_snapshot_storage keeps_q_avg_growth keeps_q_ingest_per_day
        keeps_q_node keeps_samples_part [where f = "\<lambda>d. (total_gb d, available d)"])
          apply simp_all
    done
  then show ?thesis using assms(1) by (rule generate_json_yields)
qed

lemma published_used:
  assumes "generate_json api m = (Stats_Published, m')"
    and "answer api SnapshotStorage = Responds r" and "loads_text r = Some j"
    and "getitem_key j ''value'' = Inr v" and "py_int v = Inr a"
    and "0 \<le> a" and "a < 2 ^ 24 * 10 ^ 9"
  shows "used (data m') = PInt (a div 10 ^ 9)"
proof -
  let ?Q = "\<lambda>d. used d = PInt (a div 10 ^ 9)"
  have k: "keeps (\<lambda>m. used (data m)) p \<Longrightarrow> preserves (\<lambda>m. ?Q (data m)) p"
    for p :: "'a prog"
    by (simp add: keeps_def preserves_def)
  have "yields (\<lambda>m. ?Q (data m)) (collect api)"
    unfolding collect_def
    apply (rule yields_seq_right, rule yields_seq_right)
    apply (rule yields_seq_left)
     apply (rule yields_q_snapshot_storage [OF assms(2-7)])
    apply (rule k)
    apply (intro keeps_seq keeps_q_avg_growth keeps_q_ingest_per_day
        keeps_q_node keeps_samples_part [where f = used])
          apply simp_all
    done
  then show ?thesis using assms(1) by (rule generate_json_yields)
qed

lemma published_avg_growth:
  assumes "generate_json api m = (Stats_Published, m')"
    and "answer api AvgGrowth = Responds r" and "loads_text r = Some j"
    and "getitem_key j ''bytes'' = Inr (PInt a)" and "0 \<le> a" and "a < 2 ^ 24 * 10 ^ 9"
  shows "avg_growth_per_day (data m') = PInt (a div 10 ^ 9)"
proof -
  let ?Q = "\<lambda>d. avg_growth_per_day d = PInt (a div 10 ^ 9)"
  have k: "keeps (\<lambda>m. avg_growth_per_day (data m)) p \<Longrightarrow> preserves (\<lambda>m. ?Q (data m)) p"
    for p :: "'a prog"
    by (simp add: keeps_def preserves_def)
  have "yields (\<lambda>m. ?Q (data m)) (collect api)"
    unfolding collect_def
    apply (rule yields_seq_right, rule yields_seq_right, rule yields_seq_right)
    apply (rule yields_seq_left)
     apply (rule yields_q_avg_growth [OF assms(2-6)])
    apply (rule k)
    apply (intro keeps_seq keeps_q_ingest_per_day
        keeps_q_node keeps_samples_part [where f = avg_growth_per_day])
        apply simp_all
    done
  then show ?thesis using assms(1) by (rule generate_json_yields)
qed

lemma published_ingested:
  assumes "generate_json api m = (Stats_Published, m')"
    and "answer api IngestPerDay = Responds r" and "loads_text r = Some j"
    and "getitem_idx j (- 2) = Inr y" and "getitem_key y ''stat'' = Inr (PInt a)"
    and "0 \<le> a" and "a < 2 ^ 24 * 10 ^ 9"
    and "getitem_idx j (- 1) = Inr t" and "getitem_key t ''stat'' = Inr (PInt b)"
    and "0 \<le> b" and "b < 2 ^ 24 * 10 ^ 9"
  shows "ingested_yesterday (data m') = PInt (a div 10 ^ 9) \<and>
         ingested_today (data m') = PInt (b div 10 ^ 9)"
proof -
  let ?Q = "\<lambda>d. ingested_yesterday d = PInt (a div 10 ^ 9) \<and>
                 ingested_today d = PInt (b div 10 ^ 9)"
  have k: "keeps (\<lambda>m. (ingested_yesterday (data m), ingested_today (data m))) p
      \<Longrightarrow> preserves (\<lambda>m. ?Q (data m)) p" for p :: "'a prog"
    by (simp add: keeps_def preserves_def)
  have "yields (\<lambda>m. ?Q (data m)) (collect api)"
    unfolding collect_def
    apply (rule yields_seq_right, rule yields_seq_right, rule yields_seq_right,
        rule yields_seq_right)
    apply (rule yields_seq_left)
     apply (rule yields_q_ingest_per_day [OF assms(2-11)])
    apply (rule k)
    apply (intro keeps_seq keeps_q_node
        keeps_samples_part [where f = "\<lambda>d. (ingested_yesterday d, ingested_today d)"])
        apply simp_all
    done
  then show ?thesis using assms(1) by (rule generate_json_yields)
qed

lemma last_tl_snoc: "xs \<noteq> [] \<Longrightarrow> last (tl (xs @ [v])) = v"
  by (cases xs) simp_all

lemma q_ingest_result:
  assumes "q_ingest api m = (Inr g, m1)"
    and "answer api Ingest = Responds r" and "loads_text r = Some j"
    and "getitem_idx j 0 = Inr x" and "getitem_key x ''stat'' = Inr (PInt a)"
    and "0 \<le> a" and "a < 2 ^ 53"
  shows "g = a div 2 ^ 20"
  using assms mb_exact [of a]
  by (auto simp: q_ingest_def unfold_query split: option.splits if_splits)

text \<open>The samples that a successful cycle appends are the last elements of the series.\<close>

lemma published_samples:
  assumes run: "generate_json api m = (Stats_Published, m')" and al: "aligned (data m)"
  obtains strms a b c d g i m9 where "q_io_stats api m9 = (Inr (a, b, c, d), m9)"
    and "q_ingest api m9 = (Inr g, m9)" and "py_add a b = Inr i"
    and "last (iops (data m')) = i" and "last (throughput (data m')) = PInt (c + d)"
    and "last (ingest (data m')) = PInt g" and "last (streams (data m')) = strms"
proof -
  from run have "fst (generate_json api m) = Stats_Published" by simp
  then obtain m0 where m0: "data m0 = data m" and tc: "generate_json api m = try_collect api m0"
    by (cases rule: generate_json_data [of api m]) simp_all
  from run tc have "try_collect api m0 = (Stats_Published, m')" by simp
  then obtain u where "collect api m0 = (Inr u, m')"
    by (auto simp: try_collect_def split: prod.splits sum.splits)
  then obtain strms a b c d g m9 where io: "q_io_stats api m9 = (Inr (a, b, c, d), m9)"
    and ing: "q_ingest api m9 = (Inr g, m9)"
    and ser: "series (data m9) = series (data m0)"
    and save: "save_datapoints a b c d g strms m9 = (Inr (), m')"
    by (rule collect_success)
  from ser m0 al have len: "length (throughput (data m9)) = length (iops (data m9))"
    "length (ingest (data m9)) = length (iops (data m9))"
    "length (streams (data m9)) = length (iops (data m9))"
    by (simp_all add: series_def aligned_def)
  from save obtain i where i: "py_add a b = Inr i"
    and m'_eq: "m' = (snd (append_and_trim MAX_DATAPOINTS (i, PInt (c + d), PInt g, strms) m9))
             \<lparr>json := Stats (data (snd (append_and_trim MAX_DATAPOINTS
                                          (i, PInt (c + d), PInt g, strms) m9)))\<rparr>"
    by (auto simp: save_datapoints_eq split: sum.splits dest: json_dumps_Inr)
  have ne: "iops (data m9) \<noteq> []" "throughput (data m9) \<noteq> []" "ingest (data m9) \<noteq> []"
    "streams (data m9) \<noteq> []"
    if "MAX_DATAPOINTS \<le> length (iops (data m9))"
    using that len by (auto simp: MAX_DATAPOINTS_def)
  have "last (iops (data m')) = i" "last (throughput (data m')) = PInt (c + d)"
    "last (ingest (data m')) = PInt g" "last (streams (data m')) = strms"
    using ne by (simp_all add: m'_eq append_and_trim_eq last_tl_snoc)
  with io ing i show ?thesis by (rule that)
qed

section \<open>A failure of the dump\<close>

text \<open>
  Two IOPS values within the limit of \<^verbatim>\<open>json.loads\<close> whose sum is beyond the limit of
  \<^verbatim>\<open>json.dumps\<close>, and what \<^verbatim>\<open>save_datapoints\<close> does with such a sum: the four appends
  stay, and \<^verbatim>\<open>json.dumps\<close> raises.
\<close>

lemma sum_beyond_digit_limit:
  "dumpable (PInt (10 ^ int_max_str_digits - 1)) \<and>
   \<not> dumpable (PInt ((10 ^ int_max_str_digits - 1) + (10 ^ int_max_str_digits - 1)))"
proof -
  have "0 < int_max_str_digits" by (simp add: int_max_str_digits_def)
  then have "(10::int) \<le> 10 ^ int_max_str_digits" by (simp add: self_le_power)
  then show ?thesis by (simp add: dumpable.simps(1) del: power_numeral)
qed

lemma save_datapoints_dumps_failure:
  assumes "\<not> dumpable (PInt (a + b))" and "length (iops (data m)) < MAX_DATAPOINTS"
  shows "save_datapoints (PInt a) (PInt b) tr tw g st m =
    (Inl ValueError,
     m\<lparr>data := (data m)
       \<lparr>iops := iops (data m) @ [PInt (a + b)],
        throughput := throughput (data m) @ [PInt (tr + tw)],
        ingest := ingest (data m) @ [PInt g],
        streams := streams (data m) @ [st]\<rparr>\<rparr>)"
  using assms by (simp add: save_datapoints_eq append_and_trim_eq json_dumps_def)

section \<open>The claims\<close>

text \<open>
  C1. The scalar fields are assigned one by one as the responses are parsed, and the
  handler of the \<^verbatim>\<open>try\<close> block restores none of them, so a failed cycle keeps what was
  assigned before the statement that raised. What holds, with the scalar fields in the
  order of their assignments and \<open>n = assigned api m\<close> the number of assignments that the
  cycle completes: the first \<open>n\<close> fields hold the values parsed from the responses of
  this cycle, and the other fields hold the values they had before the cycle. When a
  query raises (its request raises, its status is not 200, or a statement that parses
  its response raises), the cycle does not publish the stats, and \<open>n\<close> is less than the
  number of fields assigned up to the end of that query: the fields that the later
  queries assign are unchanged. When the \<^verbatim>\<open>try\<close> block is entered with a session and no
  query sent before \<open>q\<close> raises, \<open>n\<close> is at least the number of fields that those queries
  assign: they hold the new values even when \<open>q\<close> or a later query raises.
\<close>

theorem failed_cycle_writes_scalars_up_to_failure:
  assumes "generate_json api m = (oc, m')"
  shows
    "take (assigned api m) (scalar_rhs api)
       = map Inr (take (assigned api m) (scalars (data m'))) \<and>
     drop (assigned api m) (scalars (data m')) = drop (assigned api m) (scalars (data m)) \<and>
     (query_raises api q \<longrightarrow> oc \<noteq> Stats_Published) \<and>
     (query_raises api q \<and> 0 < fields_of q \<longrightarrow>
        assigned api m < fields_before q + fields_of q) \<and>
     (try_entered_with_session api m \<and>
      list_all (\<lambda>q'. \<not> query_raises api q') (earlier q) \<longrightarrow>
        fields_before q \<le> assigned api m)"
proof -
  have oc: "oc = fst (generate_json api m)" and m': "m' = snd (generate_json api m)"
    using assms by simp_all
  have "oc \<noteq> Stats_Published" if "query_raises api q"
    unfolding oc using that by (intro generate_json_aborts aborts_collect)
  with generate_json_scalars [of api m] raising_query_stops [of api q m]
    completed_queries_assigned [of api m q]
  show ?thesis unfolding m' by blast
qed

theorem failed_cycle_writes_scalars_up_to_failure_witness:
  "generate_json partial_storage_api MonitorJSON_init =
     (Error_Published,
      \<lparr>json = Error ''Error getting data from Rubrik'', session = None,
       data = RubrikData_init
         \<lparr>success_count := PInt 12, failure_count := PInt 1, running_count := PInt 2,
          total_gb := PInt 7\<rparr>,
       token = PNone\<rparr>) \<and>
   query_raises partial_storage_api SystemStorage \<and>
   0 < fields_of SystemStorage \<and>
   try_entered_with_session partial_storage_api MonitorJSON_init \<and>
   earlier SystemStorage = [Summary] \<and>
   \<not> query_raises partial_storage_api Summary \<and>
   assigned partial_storage_api MonitorJSON_init = 4 \<and>
   fields_before SystemStorage = 3 \<and>
   fields_before SystemStorage + fields_of SystemStorage = 5 \<and>
   take 4 (scalar_rhs partial_storage_api)
     = [Inr (PInt 12), Inr (PInt 1), Inr (PInt 2), Inr (PInt 7)] \<and>
   take 4 (scalars (data (snd (generate_json partial_storage_api MonitorJSON_init))))
     = [PInt 12, PInt 1, PInt 2, PInt 7] \<and>
   drop 4 (scalars (data (snd (generate_json partial_storage_api MonitorJSON_init))))
     = drop 4 (scalars (data MonitorJSON_init)) \<and>
   drop 4 (scalars (data MonitorJSON_init))
     = [PInt 0, PInt 0, PInt 0, PInt 0, PInt 0, PStr ''ERR'']"
  using failed_cycle_writes_scalars_up_to_failure
    [OF partial_storage_cycle, of SystemStorage]
  by (simp add: partial_storage_cycle partial_storage_raises partial_storage_entered
      partial_storage_summary_ok partial_storage_assigned partial_storage_rhs
      earlier_simps fields_before_simps)
    (simp add: scalars_def RubrikData_init_def MonitorJSON_init_def)

theorem failed_cycle_changes_scalars_counterexample:
  "query_raises storage_down_api SystemStorage \<and>
   fst (generate_json storage_down_api MonitorJSON_init) = Error_Published \<and>
   success_count (data (snd (generate_json storage_down_api MonitorJSON_init)))
     \<noteq> success_count (data MonitorJSON_init)"
  by (simp add: storage_down_raises storage_down_cycle)
    (simp add: MonitorJSON_init_def RubrikData_init_def)

text \<open>
  C2. \<^verbatim>\<open>get_rubrik_token\<close> stores a new session before it attempts the login and leaves
  the token to its caller, so a login that gives no token leaves a session without a
  token. What holds after every call of \<^verbatim>\<open>generate_json\<close>: a token is never held
  without a session; a cycle that publishes the stats leaves both present; a cycle
  that reaches the \<^verbatim>\<open>try\<close> block, with the token it held or with the one of a login of
  this call, and does not publish the stats leaves both absent, and so does every such
  cycle in which a query raises; a cycle whose login gives no token leaves the session
  of that login and no token.
\<close>

theorem token_and_session_after_cycle:
  assumes "generate_json api m = (oc, m')"
  shows
    "(token m' \<noteq> PNone \<longrightarrow> session m' \<noteq> None) \<and>
     (oc = Stats_Published \<longrightarrow> token m' \<noteq> PNone \<and> session m' \<noteq> None) \<and>
     (try_entered api m \<and> oc \<noteq> Stats_Published \<longrightarrow>
        token m' = PNone \<and> session m' = None) \<and>
     (try_entered api m \<and> query_raises api q \<longrightarrow> token m' = PNone \<and> session m' = None) \<and>
     (\<not> try_entered api m \<longrightarrow>
        oc \<noteq> Stats_Published \<and> token m' = PNone \<and> session m' = Some Session) \<and>
     session (snd (get_rubrik_token api m)) = Some Session \<and>
     token (snd (get_rubrik_token api m)) = token m"
proof -
  have tc: "(oc = Stats_Published \<and> token m' \<noteq> PNone \<and> session m' \<noteq> None) \<or>
            (oc = Error_Published \<and> session m' = None \<and> token m' = PNone)"
    if "try_collect api m0 = (oc, m')" and "token m0 \<noteq> PNone" for m0
    using try_collect_login [OF that(1)] that(2) by auto
  have raises: "oc \<noteq> Stats_Published" if "query_raises api q"
    using generate_json_aborts [OF aborts_collect [OF that], of m] assms by simp
  have "(try_entered api m \<and> oc = Stats_Published \<and> token m' \<noteq> PNone \<and> session m' \<noteq> None) \<or>
        (try_entered api m \<and> oc \<noteq> Stats_Published \<and> session m' = None \<and> token m' = PNone) \<or>
        (\<not> try_entered api m \<and> oc \<noteq> Stats_Published \<and> session m' = Some Session \<and>
         token m' = PNone)"
  proof (cases "token m = PNone")
    case False
    with assms have "try_collect api m = (oc, m')" by (simp add: generate_json_unfold)
    from tc [OF this False] False show ?thesis by (auto simp: try_entered_def)
  next
    case True
    show ?thesis
    proof (cases "fst (get_rubrik_token api m)")
      case (Inl e)
      with True assms show ?thesis
        by (auto simp: generate_json_unfold try_entered_def login_gives_token_def)
    next
      case (Inr tok)
      show ?thesis
      proof (cases "tok = PNone")
        case True
        with Inr \<open>token m = PNone\<close> assms show ?thesis
          by (auto simp: generate_json_unfold try_entered_def login_gives_token_def)
      next
        case False
        with Inr True assms
        have "try_collect api (m\<lparr>session := Some Session, token := tok\<rparr>) = (oc, m')"
          by (simp add: generate_json_unfold)
        from tc [OF this] False Inr True show ?thesis
          by (auto simp: try_entered_def login_gives_token_def)
      qed
    qed
  qed
  with raises show ?thesis by (auto simp: get_rubrik_token_state)
qed

theorem token_and_session_after_cycle_witness:
  "fst (generate_json good_api MonitorJSON_init) = Stats_Published \<and>
   token (snd (generate_json good_api MonitorJSON_init)) = PStr ''8de9d44f'' \<and>
   session (snd (generate_json good_api MonitorJSON_init)) = Some Session \<and>
   try_entered storage_down_api MonitorJSON_init \<and>
   query_raises storage_down_api SystemStorage \<and>
   fst (generate_json storage_down_api MonitorJSON_init) \<noteq> Stats_Published \<and>
   token (snd (generate_json storage_down_api MonitorJSON_init)) = PNone \<and>
   session (snd (generate_json storage_down_api MonitorJSON_init)) = None \<and>
   \<not> try_entered unreachable_api MonitorJSON_init \<and>
   token (snd (generate_json unreachable_api MonitorJSON_init)) = PNone \<and>
   session (snd (generate_json unreachable_api MonitorJSON_init)) = Some Session \<and>
   try_entered summary_down_api (snd (generate_json good_api MonitorJSON_init)) \<and>
   query_raises summary_down_api Summary \<and>
   token (snd (generate_json summary_down_api (snd (generate_json good_api MonitorJSON_init))))
     = PNone \<and>
   session (snd (generate_json summary_down_api (snd (generate_json good_api MonitorJSON_init))))
     = None"
  using token_and_session_after_cycle [OF good_cycle, of SystemStorage]
    token_and_session_after_cycle [OF storage_down_cycle, of SystemStorage]
    token_and_session_after_cycle [OF unreachable_cycle, of SystemStorage]
    token_and_session_after_cycle [OF summary_down_cycle, of Summary]
  by (simp add: storage_down_entered storage_down_raises unreachable_not_entered
      summary_down_raises summary_down_entered summary_down_cycle storage_down_cycle
      unreachable_cycle)
    (simp add: good_cycle)

theorem session_without_token_counterexample:
  "fst (generate_json unreachable_api MonitorJSON_init) = Error_Published \<and>
   session (snd (generate_json unreachable_api MonitorJSON_init)) = Some Session \<and>
   token (snd (generate_json unreachable_api MonitorJSON_init)) = PNone"
  by (simp add: unreachable_cycle) (simp add: MonitorJSON_init_def)

text \<open>
  C3. Start with the four series empty and run the four appends with the trimming
  once for each sample of a list of \<open>N\<close> samples, with any bound \<open>C\<close> (the source fixes
  30): nothing raises, each series has length \<open>min N C\<close>, and it holds the last
  \<open>min N C\<close> values appended to it, in the order of the appends.
\<close>

theorem append_all_keeps_last:
  assumes "iops (data m) = []" and "throughput (data m) = []" and "ingest (data m) = []"
    and "streams (data m) = []"
  shows "fst (append_all C smps m) = Inr () \<and>
         iops (data (snd (append_all C smps m))) = drop (length smps - C) (map fst smps) \<and>
         throughput (data (snd (append_all C smps m)))
           = drop (length smps - C) (map (\<lambda>x. fst (snd x)) smps) \<and>
         ingest (data (snd (append_all C smps m)))
           = drop (length smps - C) (map (\<lambda>x. fst (snd (snd x))) smps) \<and>
         streams (data (snd (append_all C smps m)))
           = drop (length smps - C) (map (\<lambda>x. snd (snd (snd x))) smps) \<and>
         length (iops (data (snd (append_all C smps m)))) = min (length smps) C \<and>
         length (throughput (data (snd (append_all C smps m)))) = min (length smps) C \<and>
         length (ingest (data (snd (append_all C smps m)))) = min (length smps) C \<and>
         length (streams (data (snd (append_all C smps m)))) = min (length smps) C"
proof -
  have "append_all C smps m =
    (Inr (),
     m\<lparr>data := (data m)
       \<lparr>iops := drop (length (iops (data m) @ map fst smps) - C)
                  (iops (data m) @ map fst smps),
        throughput := drop (length (throughput (data m) @ map (\<lambda>x. fst (snd x)) smps) - C)
                  (throughput (data m) @ map (\<lambda>x. fst (snd x)) smps),
        ingest := drop (length (ingest (data m) @ map (\<lambda>x. fst (snd (snd x))) smps) - C)
                  (ingest (data m) @ map (\<lambda>x. fst (snd (snd x))) smps),
        streams := drop (length (streams (data m) @ map (\<lambda>x. snd (snd (snd x))) smps) - C)
                  (streams (data m) @ map (\<lambda>x. snd (snd (snd x))) smps)\<rparr>\<rparr>)"
    by (rule append_all_general) (simp_all add: assms)
  then show ?thesis by (simp add: assms min_def)
qed

theorem append_all_keeps_last_witness:
  "iops (data MonitorJSON_init) = [] \<and> throughput (data MonitorJSON_init) = [] \<and>
   ingest (data MonitorJSON_init) = [] \<and> streams (data MonitorJSON_init) = [] \<and>
   series (data (snd (append_all 2
       [(PInt 1, PInt 10, PInt 100, PInt 1000), (PInt 2, PInt 20, PInt 200, PInt 2000),
        (PInt 3, PInt 30, PInt 300, PInt 3000)] MonitorJSON_init)))
     = ([PInt 2, PInt 3], [PInt 20, PInt 30], [PInt 200, PInt 300], [PInt 2000, PInt 3000])"
  using append_all_keeps_last [of MonitorJSON_init 2
      "[(PInt 1, PInt 10, PInt 100, PInt 1000), (PInt 2, PInt 20, PInt 200, PInt 2000),
        (PInt 3, PInt 30, PInt 300, PInt 3000)]"]
  by (simp add: series_def MonitorJSON_init_def RubrikData_init_def)

text \<open>
  C4. The loop overwrites \<open>system_status\<close> at every node that is not OK, so the result
  is the status of the last such node, not of the first. For a node list whose
  \<^verbatim>\<open>"total"\<close> is its length: the result is \<^verbatim>\<open>"OK"\<close> exactly when every node reports
  \<^verbatim>\<open>"OK"\<close>, and otherwise it is the status of the last node that does not.
\<close>

theorem node_status_is_last_non_ok:
  assumes "getitem_key j ''total'' = Inr (PInt (int (length nodes)))"
    and "getitem_key j ''data'' = Inr (PList nodes)"
    and "map (\<lambda>n. getitem_key n ''status'') nodes = map Inr sts"
  shows "system_status_of j =
           Inr (if list_all (\<lambda>s. s = PStr ''OK'') sts then PStr ''OK''
                else last (filter (\<lambda>s. s \<noteq> PStr ''OK'') sts)) \<and>
         (system_status_of j = Inr (PStr ''OK'') \<longleftrightarrow> list_all (\<lambda>s. s = PStr ''OK'') sts)"
proof -
  let ?bad = "filter (\<lambda>s. s \<noteq> PStr ''OK'') sts"
  have eq: "system_status_of j =
      Inr (if list_all (\<lambda>s. s = PStr ''OK'') sts then PStr ''OK'' else last ?bad)"
    using assms by (rule system_status_of_nodes)
  have "last ?bad \<noteq> PStr ''OK''" if "\<not> list_all (\<lambda>s. s = PStr ''OK'') sts"
  proof -
    from that have "?bad \<noteq> []" by (simp add: list_all_iff filter_empty_conv)
    then have "last ?bad \<in> set ?bad" by (rule last_in_set)
    then show ?thesis by simp
  qed
  with eq show ?thesis by auto
qed

theorem node_status_is_last_non_ok_witness:
  "system_status_of (node_report [PStr ''OK'', PStr ''FAILED'', PStr ''DEGRADED'', PStr ''OK''])
     = Inr (PStr ''DEGRADED'') \<and>
   system_status_of (node_report [PStr ''OK'', PStr ''OK'']) = Inr (PStr ''OK'')"
  using node_status_is_last_non_ok
      [of "node_report [PStr ''OK'', PStr ''FAILED'', PStr ''DEGRADED'', PStr ''OK'']"
          "map (\<lambda>s. PDict [(''status'', s)])
             [PStr ''OK'', PStr ''FAILED'', PStr ''DEGRADED'', PStr ''OK'']"
          "[PStr ''OK'', PStr ''FAILED'', PStr ''DEGRADED'', PStr ''OK'']"]
    node_status_is_last_non_ok
      [of "node_report [PStr ''OK'', PStr ''OK'']"
          "map (\<lambda>s. PDict [(''status'', s)]) [PStr ''OK'', PStr ''OK'']"
          "[PStr ''OK'', PStr ''OK'']"]
  by (simp add: node_report_def)

theorem node_status_first_non_ok_counterexample:
  "system_status_of (node_report [PStr ''FAILED'', PStr ''DEGRADED'']) = Inr (PStr ''DEGRADED'') \<and>
   system_status_of (node_report [PStr ''FAILED'', PStr ''DEGRADED''])
     \<noteq> Inr (PStr ''FAILED'')"
  by (simp add: system_status_of_def node_report_def node_status_at_def bind_e_def
      py_index_def upt_rec)

text \<open>
  C5. The three node lists of the specification: all OK gives \<^verbatim>\<open>"OK"\<close>, one DEGRADED
  node among OK ones gives \<^verbatim>\<open>"DEGRADED"\<close>, FAILED followed by DEGRADED gives
  \<^verbatim>\<open>"DEGRADED"\<close>.
\<close>

theorem node_status_examples:
  "system_status_of (node_report [PStr ''OK'', PStr ''OK'', PStr ''OK'']) = Inr (PStr ''OK'') \<and>
   system_status_of (node_report [PStr ''OK'', PStr ''DEGRADED'', PStr ''OK''])
     = Inr (PStr ''DEGRADED'') \<and>
   system_status_of (node_report [PStr ''FAILED'', PStr ''DEGRADED''])
     = Inr (PStr ''DEGRADED'')"
  by (simp add: system_status_of_def node_report_def node_status_at_def bind_e_def
      py_index_def upt_rec)

text \<open>
  C6. A login answered with a text that is not JSON: \<^verbatim>\<open>json.loads\<close> in
  \<^verbatim>\<open>get_rubrik_token\<close> raises outside every \<^verbatim>\<open>try\<close>, the call in \<^verbatim>\<open>generate_json\<close> stands
  before its own \<^verbatim>\<open>try\<close>, and the exception leaves \<^verbatim>\<open>generate_json\<close> with nothing
  published.
\<close>

theorem garbled_login_propagates:
  "generate_json garbled_login_api MonitorJSON_init =
     (Uncaught JSONDecodeError, MonitorJSON_init\<lparr>session := Some Session\<rparr>)"
  by (simp add: run_defs)

text \<open>
  C7. A cycle in which one of the nine queries raises (its request raises, its status
  is not 200, or a statement that parses its response raises), whichever of the nine
  it is, does not publish the stats and leaves the four series as they were before the
  call: the four appends stand after the last query. \<^verbatim>\<open>json.dumps\<close> stands after the
  appends; it is no query step, and the statement does not cover a cycle in which it
  raises.
\<close>

theorem failed_query_keeps_series:
  assumes "query_raises api q"
  shows "fst (generate_json api m) \<noteq> Stats_Published \<and>
         iops (data (snd (generate_json api m))) = iops (data m) \<and>
         throughput (data (snd (generate_json api m))) = throughput (data m) \<and>
         ingest (data (snd (generate_json api m))) = ingest (data m) \<and>
         streams (data (snd (generate_json api m))) = streams (data m)"
proof -
  have "fst (generate_json api m) \<noteq> Stats_Published"
    using assms by (intro generate_json_aborts aborts_collect)
  moreover have "series (data (snd (generate_json api m))) = series (data m)"
    using assms by (intro generate_json_keeps_data keeps_series_collect)
  ultimately show ?thesis by (simp add: series_def)
qed

theorem failed_query_keeps_series_witness:
  "query_raises storage_down_api SystemStorage \<and>
   iops (data (snd (generate_json storage_down_api (snd (generate_json good_api MonitorJSON_init)))))
     = [PInt 150] \<and>
   throughput (data (snd (generate_json storage_down_api
     (snd (generate_json good_api MonitorJSON_init))))) = [PInt 2] \<and>
   ingest (data (snd (generate_json storage_down_api
     (snd (generate_json good_api MonitorJSON_init))))) = [PInt 3] \<and>
   streams (data (snd (generate_json storage_down_api
     (snd (generate_json good_api MonitorJSON_init))))) = [PInt 4] \<and>
   query_raises empty_ingest_api Ingest \<and>
   fst (generate_json empty_ingest_api (snd (generate_json good_api MonitorJSON_init)))
     \<noteq> Stats_Published \<and>
   iops (data (snd (generate_json empty_ingest_api (snd (generate_json good_api MonitorJSON_init)))))
     = [PInt 150] \<and>
   streams (data (snd (generate_json empty_ingest_api
     (snd (generate_json good_api MonitorJSON_init))))) = [PInt 4]"
  using failed_query_keeps_series [of storage_down_api SystemStorage
      "snd (generate_json good_api MonitorJSON_init)"]
    failed_query_keeps_series [of empty_ingest_api Ingest
      "snd (generate_json good_api MonitorJSON_init)"]
    storage_down_raises empty_ingest_raises
  by (simp add: good_cycle)

text \<open>
  C8. Every conversion is \<^verbatim>\<open>int(v / c)\<close>: true division to the nearest double, then the
  fraction cut off. For an integer from 0 to below \<open>2 ^ 24 * 10 ^ 9\<close> divided by
  \<open>10 ^ 9\<close>, and from 0 to below \<open>2 ^ 53\<close> divided by \<open>2 ^ 20\<close>, that is the integer
  quotient. So on a cycle that publishes the stats, with byte counts and byte rates in
  these ranges, \<open>total\<close>, \<open>available\<close>, \<open>used\<close>, \<open>avg_growth_per_day\<close>, \<open>ingested_yesterday\<close>
  and \<open>ingested_today\<close> are the reported bytes \<open>div 10 ^ 9\<close>, the throughput sample is the
  sum of the two rates \<open>div 2 ^ 20\<close> and the ingest sample is the rate \<open>div 2 ^ 20\<close>;
  5000000000 bytes give 5 and 2097152 bytes per second give 2.
\<close>

theorem conversions_truncate_below_double_precision:
  assumes run: "generate_json api m = (Stats_Published, m')" and al: "aligned (data m)"
    and storage: "answer api SystemStorage = Responds r2" "loads_text r2 = Some j2"
      "getitem_key j2 ''total'' = Inr (PInt tot)"
      "getitem_key j2 ''available'' = Inr (PInt avail)"
    and snapshot: "answer api SnapshotStorage = Responds r3" "loads_text r3 = Some j3"
      "getitem_key j3 ''value'' = Inr v" "py_int v = Inr usedb"
    and growth: "answer api AvgGrowth = Responds r4" "loads_text r4 = Some j4"
      "getitem_key j4 ''bytes'' = Inr (PInt grow)"
    and perday: "answer api IngestPerDay = Responds r5" "loads_text r5 = Some j5"
      "getitem_idx j5 (- 2) = Inr y" "getitem_key y ''stat'' = Inr (PInt yest)"
      "getitem_idx j5 (- 1) = Inr t" "getitem_key t ''stat'' = Inr (PInt today)"
    and io: "answer api IoStats = Responds r8" "loads_text r8 = Some j8"
      "first_stat j8 ''iops'' ''readsPerSecond'' = Inr ir"
      "first_stat j8 ''iops'' ''writesPerSecond'' = Inr iw"
      "first_stat j8 ''ioThroughput'' ''readBytePerSecond'' = Inr (PInt tr)"
      "first_stat j8 ''ioThroughput'' ''writeBytePerSecond'' = Inr (PInt tw)"
    and live: "answer api Ingest = Responds r9" "loads_text r9 = Some j9"
      "getitem_idx j9 0 = Inr x" "getitem_key x ''stat'' = Inr (PInt ing)"
    and gb_range: "list_all (\<lambda>n. 0 \<le> n \<and> n < 2 ^ 24 * 10 ^ 9)
                     [tot, avail, usedb, grow, yest, today]"
    and mb_range: "list_all (\<lambda>n. 0 \<le> n \<and> n < 2 ^ 53) [tr, tw, ing]"
  shows "total_gb (data m') = PInt (tot div 10 ^ 9) \<and>
         available (data m') = PInt (avail div 10 ^ 9) \<and>
         used (data m') = PInt (usedb div 10 ^ 9) \<and>
         avg_growth_per_day (data m') = PInt (grow div 10 ^ 9) \<and>
         ingested_yesterday (data m') = PInt (yest div 10 ^ 9) \<and>
         ingested_today (data m') = PInt (today div 10 ^ 9) \<and>
         last (throughput (data m')) = PInt (tr div 2 ^ 20 + tw div 2 ^ 20) \<and>
         last (ingest (data m')) = PInt (ing div 2 ^ 20) \<and>
         int_quot (PInt 5000000000) GB = Inr 5 \<and>
         int_quot (PInt 2097152) MB = Inr 2"
proof -
  from gb_range have gb: "0 \<le> tot" "tot < 2 ^ 24 * 10 ^ 9" "0 \<le> avail"
    "avail < 2 ^ 24 * 10 ^ 9" "0 \<le> usedb" "usedb < 2 ^ 24 * 10 ^ 9" "0 \<le> grow"
    "grow < 2 ^ 24 * 10 ^ 9" "0 \<le> yest" "yest < 2 ^ 24 * 10 ^ 9" "0 \<le> today"
    "today < 2 ^ 24 * 10 ^ 9"
    by simp_all
  from mb_range have mb: "0 \<le> tr" "tr < 2 ^ 53" "0 \<le> tw" "tw < 2 ^ 53" "0 \<le> ing"
    "ing < 2 ^ 53"
    by simp_all
  have "total_gb (data m') = PInt (tot div 10 ^ 9) \<and>
      available (data m') = PInt (avail div 10 ^ 9)"
    using run storage(1-3) gb(1,2) storage(4) gb(3,4) by (rule published_storage)
  moreover have "used (data m') = PInt (usedb div 10 ^ 9)"
    using run snapshot gb(5,6) by (rule published_used)
  moreover have "avg_growth_per_day (data m') = PInt (grow div 10 ^ 9)"
    using run growth gb(7,8) by (rule published_avg_growth)
  moreover have "ingested_yesterday (data m') = PInt (yest div 10 ^ 9) \<and>
      ingested_today (data m') = PInt (today div 10 ^ 9)"
    using run perday(1-4) gb(9,10) perday(5,6) gb(11,12) by (rule published_ingested)
  moreover have "last (throughput (data m')) = PInt (tr div 2 ^ 20 + tw div 2 ^ 20) \<and>
      last (ingest (data m')) = PInt (ing div 2 ^ 20)"
  proof -
    from run al obtain a b c d g m9 where q8: "q_io_stats api m9 = (Inr (a, b, c, d), m9)"
      and q9: "q_ingest api m9 = (Inr g, m9)"
      and l: "last (throughput (data m')) = PInt (c + d)" "last (ingest (data m')) = PInt g"
      by (rule published_samples)
    from q_io_stats_result [OF q8 io mb(1-4)] q_ingest_result [OF q9 live mb(5,6)] l
    show ?thesis by simp
  qed
  moreover have "int_quot (PInt 5000000000) GB = Inr 5" "int_quot (PInt 2097152) MB = Inr 2"
    using gb_exact [of 5000000000] mb_exact [of 2097152] by simp_all
  ultimately show ?thesis by simp
qed

theorem conversions_truncate_witness:
  "generate_json good_api MonitorJSON_init
     = (Stats_Published, snd (generate_json good_api MonitorJSON_init)) \<and>
   aligned (data MonitorJSON_init) \<and>
   list_all (\<lambda>n. 0 \<le> n \<and> n < 2 ^ 24 * 10 ^ 9)
     [5000000000, 3999999999, 1500000000, 2500000000, 8000000000, 9000000000 :: int] \<and>
   list_all (\<lambda>n. 0 \<le> n \<and> n < 2 ^ 53) [1572864, 1572864, 3145728 :: int] \<and>
   total_gb (data (snd (generate_json good_api MonitorJSON_init))) = PInt 5 \<and>
   available (data (snd (generate_json good_api MonitorJSON_init))) = PInt 3 \<and>
   used (data (snd (generate_json good_api MonitorJSON_init))) = PInt 1 \<and>
   avg_growth_per_day (data (snd (generate_json good_api MonitorJSON_init))) = PInt 2 \<and>
   ingested_yesterday (data (snd (generate_json good_api MonitorJSON_init))) = PInt 8 \<and>
   ingested_today (data (snd (generate_json good_api MonitorJSON_init))) = PInt 9 \<and>
   last (throughput (data (snd (generate_json good_api MonitorJSON_init)))) = PInt 2 \<and>
   last (ingest (data (snd (generate_json good_api MonitorJSON_init)))) = PInt 3"
proof -
  have gb: "list_all (\<lambda>n. 0 \<le> n \<and> n < 2 ^ 24 * 10 ^ 9)
     [5000000000, 3999999999, 1500000000, 2500000000, 8000000000, 9000000000 :: int]"
    by simp
  have mb: "list_all (\<lambda>n. 0 \<le> n \<and> n < 2 ^ 53) [1572864, 1572864, 3145728 :: int]"
    by simp
  have used: "py_int (PStr ''1500000000'') = Inr 1500000000"
    by (simp add: str_defs)
  have "total_gb (data (snd (generate_json good_api MonitorJSON_init))) = PInt 5 \<and>
   available (data (snd (generate_json good_api MonitorJSON_init))) = PInt 3 \<and>
   used (data (snd (generate_json good_api MonitorJSON_init))) = PInt 1 \<and>
   avg_growth_per_day (data (snd (generate_json good_api MonitorJSON_init))) = PInt 2 \<and>
   ingested_yesterday (data (snd (generate_json good_api MonitorJSON_init))) = PInt 8 \<and>
   ingested_today (data (snd (generate_json good_api MonitorJSON_init))) = PInt 9 \<and>
   last (throughput (data (snd (generate_json good_api MonitorJSON_init)))) = PInt 2 \<and>
   last (ingest (data (snd (generate_json good_api MonitorJSON_init)))) = PInt 3"
    using conversions_truncate_below_double_precision
      [OF good_cycle_run init_aligned _ _ _ _ _ _ _ used _ _ _ _ _ _ _ _ _ _ _
          good_io_stats [of 100 50 1572864 1572864] _ _ _ _ gb mb,
        where ?r2.0 = "\<lparr>status_code = 200, loads_text = Some (PDict [(''total'', PInt 5000000000),
                                      (''available'', PInt 3999999999)])\<rparr>"
          and ?r3.0 = "\<lparr>status_code = 200,
                         loads_text = Some (PDict [(''value'', PStr ''1500000000'')])\<rparr>"
          and ?r4.0 = "\<lparr>status_code = 200,
                         loads_text = Some (PDict [(''bytes'', PInt 2500000000)])\<rparr>"
          and ?r5.0 = "\<lparr>status_code = 200,
                 loads_text = Some (stat_series [7000000000, 8000000000, 9000000000])\<rparr>"
          and y = "PDict [(''stat'', PInt 8000000000)]"
          and t = "PDict [(''stat'', PInt 9000000000)]"
          and ?r8.0 = "\<lparr>status_code = 200,
                         loads_text = Some (io_report 100 50 1572864 1572864)\<rparr>"
          and ?r9.0 = "\<lparr>status_code = 200, loads_text = Some (stat_series [3145728])\<rparr>"
          and x = "PDict [(''stat'', PInt 3145728)]"]
    by (simp add: good_api_def good_answer_def ok_def stat_series_def py_index_def)
  with good_cycle_run init_aligned gb mb show ?thesis by simp
qed

theorem conversion_rounds_up_counterexample:
  "int_quot (PInt 19999999999999999) GB = Inr 20000000 \<and>
   int_quot (PInt 19999999999999999) GB \<noteq> Inr (19999999999999999 div 10 ^ 9)"
  by (simp add: float_defs)

text \<open>
  C9. From the state the constructor builds, after any number of cycles, whatever the
  appliance answers in each, the four series have the same length and that length is at
  most \<open>MAX_DATAPOINTS\<close>, which is 30. The trimming tests the length of \<open>iops\<close> alone: when
  it exceeds the bound, the first element of each of the four series goes; when it does
  not, nothing is removed, however long the other three are.
\<close>

theorem series_stay_aligned:
  "aligned (data (main_loop apis MonitorJSON_init)) \<and>
   length (iops (data (main_loop apis MonitorJSON_init))) \<le> 30 \<and>
   (cap < length (iops (data m)) \<and> throughput (data m) \<noteq> [] \<and> ingest (data m) \<noteq> [] \<and>
    streams (data m) \<noteq> [] \<longrightarrow>
      trim cap m =
        (Inr (), m\<lparr>data := (data m)\<lparr>iops := tl (iops (data m)),
                     throughput := tl (throughput (data m)), ingest := tl (ingest (data m)),
                     streams := tl (streams (data m))\<rparr>\<rparr>)) \<and>
   (length (iops (data m)) \<le> cap \<longrightarrow> trim cap m = (Inr (), m))"
proof -
  have "aligned (data MonitorJSON_init)"
    by (simp add: aligned_def MonitorJSON_init_def RubrikData_init_def)
  then have "aligned (data (main_loop apis MonitorJSON_init))" by (rule main_loop_aligned)
  moreover have "trim cap m =
        (Inr (), m\<lparr>data := (data m)\<lparr>iops := tl (iops (data m)),
                     throughput := tl (throughput (data m)), ingest := tl (ingest (data m)),
                     streams := tl (streams (data m))\<rparr>\<rparr>)"
    if "cap < length (iops (data m))" "throughput (data m) \<noteq> []" "ingest (data m) \<noteq> []"
      "streams (data m) \<noteq> []"
  proof -
    from that(1) have "iops (data m) \<noteq> []" by auto
    with that show ?thesis
      by (auto simp: trim_def seq_def bind_p_def stmt_def del_first_def neq_Nil_conv)
  qed
  moreover have "trim cap m = (Inr (), m)" if "length (iops (data m)) \<le> cap"
    using that by (simp add: trim_def)
  ultimately show ?thesis by (simp add: aligned_def MAX_DATAPOINTS_def)
qed

theorem series_stay_aligned_witness:
  "aligned (data (main_loop [good_api, storage_down_api, good_api] MonitorJSON_init)) \<and>
   (0::nat) < length (iops (data (snd (generate_json good_api MonitorJSON_init)))) \<and>
   fst (trim 0 (snd (generate_json good_api MonitorJSON_init))) = Inr () \<and>
   series (data (snd (trim 0 (snd (generate_json good_api MonitorJSON_init)))))
     = ([], [], [], []) \<and>
   length (iops (data (snd (generate_json good_api MonitorJSON_init)))) \<le> (7::nat) \<and>
   trim 7 (snd (generate_json good_api MonitorJSON_init))
     = (Inr (), snd (generate_json good_api MonitorJSON_init))"
  using series_stay_aligned [of "[good_api, storage_down_api, good_api]" 0
      "snd (generate_json good_api MonitorJSON_init)"]
    series_stay_aligned [of "[]" 7 "snd (generate_json good_api MonitorJSON_init)"]
  by (simp add: good_cycle series_def)

text \<open>
  C10. On a cycle that publishes the stats, started with the four series of one
  length: the new IOPS sample is \<^verbatim>\<open>iops_reads + iops_writes\<close> as the response gave them,
  with no conversion, and the new throughput sample is the sum of the two byte rates
  each converted to megabytes on its own. For rates from 0 to below \<open>2 ^ 53\<close> the
  conversion is the integer quotient by \<open>2 ^ 20\<close>, so the sample is
  \<open>tr div 2 ^ 20 + tw div 2 ^ 20\<close>; with two rates of 1572864 bytes per second that is
  2, where the quotient of their sum is 3.
\<close>

theorem throughput_sample_converts_each_rate:
  assumes run: "generate_json api m = (Stats_Published, m')"
    and al: "aligned (data m)"
    and io: "answer api IoStats = Responds r" "loads_text r = Some j"
      "first_stat j ''iops'' ''readsPerSecond'' = Inr ir"
      "first_stat j ''iops'' ''writesPerSecond'' = Inr iw"
      "first_stat j ''ioThroughput'' ''readBytePerSecond'' = Inr (PInt tr)"
      "first_stat j ''ioThroughput'' ''writeBytePerSecond'' = Inr (PInt tw)"
    and bounds: "0 \<le> tr" "tr < 2 ^ 53" "0 \<le> tw" "tw < 2 ^ 53"
  shows "py_add ir iw = Inr (last (iops (data m'))) \<and>
         last (throughput (data m')) = PInt (tr div 2 ^ 20 + tw div 2 ^ 20) \<and>
         (1572864::int) div 2 ^ 20 + 1572864 div 2 ^ 20 = 2 \<and>
         ((1572864::int) + 1572864) div 2 ^ 20 = 3"
proof -
  from run al obtain a b c d i m9 where q8: "q_io_stats api m9 = (Inr (a, b, c, d), m9)"
    and i: "py_add a b = Inr i"
    and l: "last (iops (data m')) = i" "last (throughput (data m')) = PInt (c + d)"
    by (rule published_samples)
  from q_io_stats_result [OF q8 io bounds] i l show ?thesis by simp
qed

theorem throughput_sample_converts_each_rate_witness:
  "generate_json good_api MonitorJSON_init
     = (Stats_Published, snd (generate_json good_api MonitorJSON_init)) \<and>
   aligned (data MonitorJSON_init) \<and>
   py_add (PInt 100) (PInt 50)
     = Inr (last (iops (data (snd (generate_json good_api MonitorJSON_init))))) \<and>
   last (throughput (data (snd (generate_json good_api MonitorJSON_init)))) = PInt 2 \<and>
   last (iops (data (snd (generate_json good_api MonitorJSON_init)))) = PInt 150"
proof -
  have "py_add (PInt 100) (PInt 50)
      = Inr (last (iops (data (snd (generate_json good_api MonitorJSON_init))))) \<and>
    last (throughput (data (snd (generate_json good_api MonitorJSON_init)))) = PInt 2"
    using throughput_sample_converts_each_rate
      [OF good_cycle_run init_aligned _ _ good_io_stats [of 100 50 1572864 1572864],
        where r = "\<lparr>status_code = 200,
                      loads_text = Some (io_report 100 50 1572864 1572864)\<rparr>"]
    by (simp add: good_api_def good_answer_def ok_def)
  with good_cycle_run init_aligned show ?thesis by auto
qed

theorem throughput_sample_counterexample:
  "fst (generate_json huge_rate_api MonitorJSON_init) = Stats_Published \<and>
   throughput (data (snd (generate_json huge_rate_api MonitorJSON_init)))
     = [PInt 17179869184] \<and>
   throughput (data (snd (generate_json huge_rate_api MonitorJSON_init)))
     \<noteq> [PInt (18014398509481983 div 2 ^ 20 + 0 div 2 ^ 20)]"
  by (simp add: run_defs)

end
